theory Spec2Isabelle
  imports Main
begin

section \<open>JavaScript strings\<close>

text \<open>
  The plugin is one TypeScript file, \<^verbatim>\<open>src/main.ts\<close>. A JavaScript string is a sequence of
  UTF-16 code units. The model uses \<^typ>\<open>string\<close>; a \<^typ>\<open>char\<close> stands for the code unit of
  the same number, so the model covers the strings whose code units are below 256. In this
  range the line terminators are LF and CR, the white space of \<^verbatim>\<open>\s\<close> and of \<^verbatim>\<open>trim\<close> is TAB,
  LF, VT, FF, CR, SP and NBSP, \<^verbatim>\<open>\d\<close> is \<^verbatim>\<open>0-9\<close>, and \<^verbatim>\<open>toLowerCase\<close> moves \<^verbatim>\<open>A-Z\<close> and the
  capital letters of Latin-1 (\<^verbatim>\<open>U+00C0\<close> to \<^verbatim>\<open>U+00DE\<close> without the multiplication sign) by 32.
\<close>

definition isLineTerminator :: "char \<Rightarrow> bool" where
  "isLineTerminator c = (c = CHR 0x0A \<or> c = CHR 0x0D)"

definition isWhiteSpace :: "char \<Rightarrow> bool" where
  "isWhiteSpace c = (c \<in> set [CHR 0x09, CHR 0x0A, CHR 0x0B, CHR 0x0C, CHR 0x0D, CHR 0x20, CHR 0xA0])"

definition isDigit :: "char \<Rightarrow> bool" where
  "isDigit c = (48 \<le> (of_char c :: nat) \<and> (of_char c :: nat) \<le> 57)"

definition isUpper :: "char \<Rightarrow> bool" where
  "isUpper c = (65 \<le> (of_char c :: nat) \<and> (of_char c :: nat) \<le> 90)"

definition lowerChar :: "char \<Rightarrow> char" where
  "lowerChar c =
     (let n = (of_char c :: nat)
      in if (65 \<le> n \<and> n \<le> 90) \<or> (192 \<le> n \<and> n \<le> 222 \<and> n \<noteq> 215) then char_of (n + 32) else c)"

definition toLowerCase :: "string \<Rightarrow> string" where
  "toLowerCase s = map lowerChar s"

text \<open>\<^verbatim>\<open>s.startsWith(p)\<close> and \<^verbatim>\<open>s.includes(p)\<close>.\<close>

fun startsWith :: "string \<Rightarrow> string \<Rightarrow> bool" where
  "startsWith s [] = True"
| "startsWith [] (p # ps) = False"
| "startsWith (c # cs) (p # ps) = (c = p \<and> startsWith cs ps)"

fun includes_str :: "string \<Rightarrow> string \<Rightarrow> bool" where
  "includes_str [] pat = (pat = [])"
| "includes_str (c # cs) pat = (startsWith (c # cs) pat \<or> includes_str cs pat)"

definition trim :: "string \<Rightarrow> string" where
  "trim s = rev (dropWhile isWhiteSpace (rev (dropWhile isWhiteSpace s)))"

text \<open>
  Numbers in template strings. Page numbers, course ids and counters are naturals below
  \<^verbatim>\<open>1e21\<close>, which JavaScript prints in decimal.
\<close>

fun toString_nat :: "nat \<Rightarrow> string" where
  "toString_nat n =
     (if n < 10 then [char_of (48 + n)]
      else toString_nat (n div 10) @ [char_of (48 + n mod 10)])"

declare toString_nat.simps [simp del]

subsection \<open>Number values\<close>

text \<open>
  \<^verbatim>\<open>points_possible\<close> has the type \<^verbatim>\<open>number\<close>: a double, which may be a fraction, an infinity or
  \<^verbatim>\<open>NaN\<close>. \<^verbatim>\<open>Number::toString\<close> prints a finite number \<open>x\<close> other than zero from its sign and the
  integers \<open>n\<close>, \<open>k\<close>, \<open>s\<close> with \<^verbatim>\<open>k >= 1\<close>, \<^verbatim>\<open>10^(k-1) <= s < 10^k\<close>, \<^verbatim>\<open>s * 10^(n-k)\<close> the number that
  reads back as the absolute value of \<open>x\<close>, and \<open>k\<close> as small as possible: \<open>s\<close> holds the \<open>k\<close>
  significant digits and is not divisible by 10, and \<open>n\<close> places the decimal point. Because the
  digits read back as the number, two doubles with the same sign, \<open>s\<close> and \<open>n\<close> are the same
  double. The model takes a finite number other than zero as these data: \<open>Decimal neg s n\<close>,
  with \<open>k\<close> the number of decimal digits of \<open>s\<close>. So 10 is \<open>Decimal False 1 2\<close>, 7.5 is
  \<open>Decimal False 75 1\<close> and \<^verbatim>\<open>1e21\<close> is \<open>Decimal False 1 22\<close>. \<open>isNumber\<close> says that \<open>s\<close> is positive
  and has no trailing zero. Every double is such a value; the values that are no double (more
  than 17 digits, or an exponent out of range) are printed by the same rules.

  \<open>Number_toString\<close> is \<^verbatim>\<open>Number::toString\<close> for radix 10, the conversion of a template literal:
  the digits followed by zeros when \<^verbatim>\<open>k <= n <= 21\<close>; the digits with a decimal point when
  \<^verbatim>\<open>0 < n <= 21\<close>; \<^verbatim>\<open>0.\<close>, zeros and the digits when \<^verbatim>\<open>-6 < n <= 0\<close>; otherwise the exponential
  form, \<^verbatim>\<open>1e+21\<close> or \<^verbatim>\<open>1.5e-7\<close>. \<open>JSON_number\<close> is what \<^verbatim>\<open>JSON.stringify\<close> writes for a number: the
  same text for a finite number, \<^verbatim>\<open>null\<close> for \<^verbatim>\<open>NaN\<close> and the infinities. \<open>strictEquals\<close> is \<^verbatim>\<open>===\<close>
  on numbers: \<^verbatim>\<open>NaN\<close> equals nothing and the two zeros are equal.
\<close>

datatype js_number = NaN | Infinite bool | Zero bool | Decimal bool nat int

fun isNumber :: "js_number \<Rightarrow> bool" where
  "isNumber (Decimal neg s n) = (0 < s \<and> \<not> 10 dvd s)"
| "isNumber x = True"

fun isFinite :: "js_number \<Rightarrow> bool" where
  "isFinite NaN = False"
| "isFinite (Infinite neg) = False"
| "isFinite x = True"

fun strictEquals :: "js_number \<Rightarrow> js_number \<Rightarrow> bool" where
  "strictEquals NaN y = False"
| "strictEquals x NaN = False"
| "strictEquals (Zero a) (Zero b) = True"
| "strictEquals x y = (x = y)"

definition exponentPart :: "int \<Rightarrow> string" where
  "exponentPart e = CHR ''e'' # (if 0 < e then CHR ''+'' else CHR ''-'') # toString_nat (nat \<bar>e\<bar>)"

definition digitsToString :: "nat \<Rightarrow> int \<Rightarrow> string" where
  "digitsToString s n =
     (let ds = toString_nat s; k = int (length ds)
      in if k \<le> n \<and> n \<le> 21 then ds @ replicate (nat (n - k)) (CHR ''0'')
         else if 0 < n \<and> n \<le> 21 then take (nat n) ds @ CHR ''.'' # drop (nat n) ds
         else if - 6 < n \<and> n \<le> 0 then CHR ''0'' # CHR ''.'' # replicate (nat (- n)) (CHR ''0'') @ ds
         else if k = 1 then ds @ exponentPart (n - 1)
         else hd ds # CHR ''.'' # tl ds @ exponentPart (n - 1))"

fun Number_toString :: "js_number \<Rightarrow> string" where
  "Number_toString NaN = ''NaN''"
| "Number_toString (Infinite neg) = (if neg then ''-Infinity'' else ''Infinity'')"
| "Number_toString (Zero neg) = ''0''"
| "Number_toString (Decimal neg s n) = (if neg then CHR ''-'' # digitsToString s n else digitsToString s n)"

definition JSON_number :: "js_number \<Rightarrow> string" where
  "JSON_number x = (if isFinite x then Number_toString x else ''null'')"

section \<open>Regular expressions\<close>

text \<open>
  The regular expressions of the source are sequences of these items: one character of a
  class, a class under \<^verbatim>\<open>*?\<close>, \<^verbatim>\<open>*\<close> or \<^verbatim>\<open>+\<close>, the anchor \<^verbatim>\<open>$\<close> (without and with the flag
  \<^verbatim>\<open>m\<close>), an alternative of two items, and a mark at each parenthesis of a capture group.
  \<open>bt rx s\<close> is the backtracking matcher at the start of \<open>s\<close>: it tries the alternatives in the
  order of the ECMAScript semantics (a lazy star the shortest repetition first, a greedy one
  the longest) and returns the rest of \<open>s\<close> after the first match that succeeds, with the rests
  of \<open>s\<close> at the marks. \<open>exec rx s\<close> is the leftmost match: the text before it, the marks, the
  text after it.
\<close>

datatype item =
    One "char \<Rightarrow> bool"
  | LazyStar "char \<Rightarrow> bool"
  | Star "char \<Rightarrow> bool"
  | Plus "char \<Rightarrow> bool"
  | EndInput
  | EndLine
  | Alt item item
  | Mark

type_synonym regex = "item list"

fun bt :: "regex \<Rightarrow> string \<Rightarrow> (string list \<times> string) option" where
  "bt [] s = Some ([], s)"
| "bt (One p # k) [] = None"
| "bt (One p # k) (c # cs) = (if p c then bt k cs else None)"
| "bt (LazyStar p # k) [] = bt k []"
| "bt (LazyStar p # k) (c # cs) =
     (case bt k (c # cs) of
        Some r \<Rightarrow> Some r
      | None \<Rightarrow> if p c then bt (LazyStar p # k) cs else None)"
| "bt (Star p # k) [] = bt k []"
| "bt (Star p # k) (c # cs) =
     (if p c then (case bt (Star p # k) cs of Some r \<Rightarrow> Some r | None \<Rightarrow> bt k (c # cs))
      else bt k (c # cs))"
| "bt (Plus p # k) [] = None"
| "bt (Plus p # k) (c # cs) = (if p c then bt (Star p # k) cs else None)"
| "bt (EndInput # k) s = (if s = [] then bt k s else None)"
| "bt (EndLine # k) [] = bt k []"
| "bt (EndLine # k) (c # cs) = (if isLineTerminator c then bt k (c # cs) else None)"
| "bt (Alt a b # k) s = (case bt (a # k) s of Some r \<Rightarrow> Some r | None \<Rightarrow> bt (b # k) s)"
| "bt (Mark # k) s = map_option (\<lambda>(ms, r). (s # ms, r)) (bt k s)"

fun exec :: "regex \<Rightarrow> string \<Rightarrow> (string \<times> string list \<times> string) option" where
  "exec rx [] = map_option (\<lambda>(ms, r). ([], ms, r)) (bt rx [])"
| "exec rx (c # cs) =
     (case bt rx (c # cs) of
        Some (ms, r) \<Rightarrow> Some ([], ms, r)
      | None \<Rightarrow> map_option (\<lambda>(b, ms, r). (c # b, ms, r)) (exec rx cs))"

text \<open>
  \<^verbatim>\<open>s.replace(rx, template)\<close> with a string as replacement: \<open>getSubstitution\<close> expands the
  patterns \<^verbatim>\<open>$$\<close>, \<^verbatim>\<open>$&\<close>, \<^verbatim>\<open>$`\<close> and \<^verbatim>\<open>$'\<close> (the expressions that are replaced by a non-empty
  template have no capture group, so \<^verbatim>\<open>$1\<close> stays as it is). \<open>replace_first\<close> is the call
  without the flag \<^verbatim>\<open>g\<close>, \<open>replace_all\<close> the call with it: it replaces the leftmost match,
  goes on after it, and steps over one character after an empty match.
\<close>

definition matched :: "string \<Rightarrow> string \<Rightarrow> string \<Rightarrow> string" where
  "matched s b a = take (length s - length b - length a) (drop (length b) s)"

fun getSubstitution :: "string \<Rightarrow> string \<Rightarrow> string \<Rightarrow> string \<Rightarrow> string" where
  "getSubstitution m b a [] = []"
| "getSubstitution m b a [c] = [c]"
| "getSubstitution m b a (c # d # t) =
     (if c = CHR ''$'' \<and> d = CHR ''$'' then CHR ''$'' # getSubstitution m b a t
      else if c = CHR ''$'' \<and> d = CHR ''&'' then m @ getSubstitution m b a t
      else if c = CHR ''$'' \<and> d = CHR 0x60 then b @ getSubstitution m b a t
      else if c = CHR ''$'' \<and> d = CHR 0x27 then a @ getSubstitution m b a t
      else c # getSubstitution m b a (d # t))"

definition replace_first :: "regex \<Rightarrow> string \<Rightarrow> string \<Rightarrow> string" where
  "replace_first rx template s =
     (case exec rx s of
        None \<Rightarrow> s
      | Some (b, ms, a) \<Rightarrow> b @ getSubstitution (matched s b a) b a template @ a)"

function replace_global :: "regex \<Rightarrow> string \<Rightarrow> string \<Rightarrow> string \<Rightarrow> string" where
  "replace_global rx template pre s =
     (case bt rx s of
        Some (ms, r) \<Rightarrow>
          if length r < length s
          then getSubstitution (take (length s - length r) s) pre r template
                 @ replace_global rx template (pre @ take (length s - length r) s) r
          else (case s of
                  [] \<Rightarrow> getSubstitution [] pre [] template
                | c # cs \<Rightarrow> getSubstitution [] pre s template @ c # replace_global rx template (pre @ [c]) cs)
      | None \<Rightarrow>
          (case s of
             [] \<Rightarrow> []
           | c # cs \<Rightarrow> c # replace_global rx template (pre @ [c]) cs))"
  by pat_completeness auto
termination
  by (relation "measure (\<lambda>(rx, template, pre, s). length s)") auto

declare replace_global.simps [simp del]

definition replace_all :: "regex \<Rightarrow> string \<Rightarrow> string \<Rightarrow> string" where
  "replace_all rx template s = replace_global rx template [] s"

section \<open>cleanAssignmentName\<close>

text \<open>
  \<^verbatim>\<open>cleanAssignmentName(name: string): string {
    name = name.replace(/\[.*?\]/g, '');
    name = name.replace(/-[A-Z]{3}[0-9]{3}-/g, '');
    name = name.replace(/\d{4}-\d{2}-\d{2}/, '');
    name = name.replace(/[\*"\\/<>:|?]/g, '')
      .replace(/\s+/g, ' ')
      .trim();
    return name;
  }\<close>
\<close>

definition illegalChars :: "char list" where
  "illegalChars = [CHR ''*'', CHR 0x22, CHR 0x5C, CHR ''/'', CHR ''<'', CHR ''>'', CHR '':'', CHR ''|'', CHR ''?'']"

definition rx_tag :: regex where
  "rx_tag = [One (\<lambda>c. c = CHR ''[''), LazyStar (\<lambda>c. \<not> isLineTerminator c), One (\<lambda>c. c = CHR '']'')]"

definition rx_courseToken :: regex where
  "rx_courseToken =
     [One (\<lambda>c. c = CHR ''-'')] @ replicate 3 (One isUpper) @ replicate 3 (One isDigit) @ [One (\<lambda>c. c = CHR ''-'')]"

definition rx_date :: regex where
  "rx_date =
     replicate 4 (One isDigit) @ [One (\<lambda>c. c = CHR ''-'')] @ replicate 2 (One isDigit)
       @ [One (\<lambda>c. c = CHR ''-'')] @ replicate 2 (One isDigit)"

definition rx_illegal :: regex where
  "rx_illegal = [One (\<lambda>c. c \<in> set illegalChars)]"

definition rx_spaces :: regex where
  "rx_spaces = [Plus isWhiteSpace]"

definition cleanAssignmentName :: "string \<Rightarrow> string" where
  "cleanAssignmentName nm =
     trim (replace_all rx_spaces '' ''
       (replace_all rx_illegal []
         (replace_first rx_date []
           (replace_all rx_courseToken []
             (replace_all rx_tag [] nm)))))"

section \<open>Settings and Canvas data\<close>

text \<open>
  The interfaces of the source, as records. \<open>CanvasCourse.id\<close>, \<open>name\<close>, \<open>course_code\<close> and
  \<open>term\<close> are the fields \<open>c_id\<close>, \<open>c_name\<close>, \<open>c_course_code\<close> and \<open>c_term\<close>; \<open>CanvasAssignment.id\<close>
  is \<open>a_id\<close>. \<open>ApiAssignment\<close> holds the fields an assignment has when it arrives from the API
  (\<^verbatim>\<open>Partial<CanvasAssignment>\<close>); \<open>fetchCanvasAssignments\<close> adds the three course fields.
  Fields have the types the interfaces declare: a \<open>string\<close> field is a string (the empty
  string is the only falsy one), \<open>due_at\<close> is \<^verbatim>\<open>string | null\<close>.
\<close>

record CanvasAssignmentProcessorSettings =
  canvasToken :: string
  canvasApiBase :: string
  templatePath :: string
  semester :: string
  year :: string

record CanvasTerm =
  term_name :: string

record CanvasCourse =
  c_id :: nat
  c_name :: string
  c_course_code :: string
  c_term :: "CanvasTerm option"

record ApiAssignment =
  a_id :: nat
  name :: string
  description :: string
  html_url :: string
  points_possible :: js_number
  due_at :: "string option"

record CanvasAssignment = ApiAssignment +
  course_code :: string
  course_name :: string
  course :: string

definition DEFAULT_SETTINGS :: CanvasAssignmentProcessorSettings where
  "DEFAULT_SETTINGS =
     \<lparr>canvasToken = [], canvasApiBase = ''https://canvas.instructure.com/api/v1'',
      templatePath = ''Templates/Assignment.md'', semester = ''Spring'', year = ''2025''\<rparr>"

section \<open>Pagination\<close>

text \<open>
  \<^verbatim>\<open>async getAllPages<T>(baseUrl: string): Promise<T[]> {
    let allData: T[] = [];
    let page = 1;
    let hasMore = true;
    while (hasMore) {
      const url = `${baseUrl}${baseUrl.includes('?') ? '&' : '?'}page=${page}&per_page=100`;
      try {
        const data = await this.makeRequest<T[]>(url);
        if (Array.isArray(data) && data.length > 0) {
          allData = [...allData, ...data];
          page++;
        } else {
          hasMore = false;
        }
        if (Array.isArray(data) && data.length < 100) {
          hasMore = false;
        }
      } catch (error) {
        hasMore = false;
      }
    }
    return allData;
  }\<close>

  \<open>makeRequest\<close> is a parameter: the answer to a URL is an exception, a value that is not an
  array, or an array. The loop may run forever (a source that always answers 100 items), so
  it is a partial function: \<open>None\<close> is the run that never returns. Beside \<open>allData\<close> the model
  returns the URLs it requested, in order.
\<close>

datatype 'a response = Throws | NotArray | Array "'a list"

definition pageUrl :: "string \<Rightarrow> nat \<Rightarrow> string" where
  "pageUrl baseUrl page =
     baseUrl @ (if includes_str baseUrl ''?'' then ''&'' else ''?'')
       @ ''page='' @ toString_nat page @ ''&per_page=100''"

partial_function (option) getAllPages_loop ::
  "(string \<Rightarrow> 'a response) \<Rightarrow> string \<Rightarrow> 'a list \<Rightarrow> nat \<Rightarrow> string list
     \<Rightarrow> ('a list \<times> string list) option"
where
  "getAllPages_loop makeRequest baseUrl allData page requests =
     (case makeRequest (pageUrl baseUrl page) of
        Throws \<Rightarrow> Some (allData, requests @ [pageUrl baseUrl page])
      | NotArray \<Rightarrow> Some (allData, requests @ [pageUrl baseUrl page])
      | Array data \<Rightarrow>
          if length data > 0
          then (if length data < 100
                then Some (allData @ data, requests @ [pageUrl baseUrl page])
                else getAllPages_loop makeRequest baseUrl (allData @ data) (page + 1)
                       (requests @ [pageUrl baseUrl page]))
          else Some (allData, requests @ [pageUrl baseUrl page]))"

declare getAllPages_loop.simps [code]

definition getAllPages :: "(string \<Rightarrow> 'a response) \<Rightarrow> string \<Rightarrow> ('a list \<times> string list) option" where
  "getAllPages makeRequest baseUrl = getAllPages_loop makeRequest baseUrl [] 1 []"

section \<open>Course filter\<close>

text \<open>
  \<^verbatim>\<open>isCurrentSemesterCourse(course: CanvasCourse): boolean {
    const courseName = course.name ? course.name.toLowerCase() : '';
    const courseCode = course.course_code ? course.course_code.toLowerCase() : '';
    const termName = course.term?.name ? course.term.name.toLowerCase() : '';
    const semesterYear = `${this.settings.semester.toLowerCase()} ${this.settings.year}`;
    return (courseName.includes(semesterYear) ||
        courseCode.includes(`${this.settings.year}${this.settings.semester.toLowerCase()}`) ||
        courseCode.includes(`${this.settings.year}${this.settings.semester.toLowerCase()}c`) ||
        (courseCode.includes(this.settings.semester.toLowerCase()) && courseCode.includes(this.settings.year)) ||
        termName.includes(`${this.settings.year} ${this.settings.semester.toLowerCase()}`));
  }\<close>
\<close>

definition isCurrentSemesterCourse :: "CanvasAssignmentProcessorSettings \<Rightarrow> CanvasCourse \<Rightarrow> bool" where
  "isCurrentSemesterCourse settings c =
     (let courseName = toLowerCase (c_name c);
          courseCode = toLowerCase (c_course_code c);
          termName = (case c_term c of None \<Rightarrow> [] | Some t \<Rightarrow> toLowerCase (term_name t));
          semesterYear = toLowerCase (semester settings) @ '' '' @ year settings
      in includes_str courseName semesterYear
         \<or> includes_str courseCode (year settings @ toLowerCase (semester settings))
         \<or> includes_str courseCode (year settings @ toLowerCase (semester settings) @ ''c'')
         \<or> (includes_str courseCode (toLowerCase (semester settings)) \<and> includes_str courseCode (year settings))
         \<or> includes_str termName (year settings @ '' '' @ toLowerCase (semester settings)))"

section \<open>Fetching assignments\<close>

text \<open>
  \<^verbatim>\<open>const courses = await this.getAllPages<CanvasCourse>(
      `${this.settings.canvasApiBase}/courses?include[]=term&enrollment_state=active`);
  const currentSemesterCourses = courses.filter(course => this.isCurrentSemesterCourse(course));
  let allAssignments: CanvasAssignment[] = [];
  for (const course of currentSemesterCourses) {
    try {
      const assignments = await this.getAllPages<Partial<CanvasAssignment>>(
        `${this.settings.canvasApiBase}/courses/${course.id}/assignments?include[]=submission`);
      const processedAssignments: CanvasAssignment[] = assignments.map(assignment => {
        const courseCodeMatch = course.course_code.match(/([A-Z]{3}[0-9]{3})/);
        return { ...assignment as CanvasAssignment,
          course_code: course.course_code, course_name: course.name,
          course: courseCodeMatch ? courseCodeMatch[1] : course.course_code };
      });
      allAssignments = [...allAssignments, ...processedAssignments];
    } catch (err) { continue; }
  }
  return allAssignments;\<close>

  \<open>getAllPages\<close> catches every exception of a request, and nothing else in the body of the
  loop throws on a course of the declared type, so the \<^verbatim>\<open>catch\<close> of the loop has no path in
  the model. The requests for courses and for assignments are two parameters, one per
  element type.
\<close>

definition rx_subject :: regex where
  "rx_subject = [Mark] @ replicate 3 (One isUpper) @ replicate 3 (One isDigit) @ [Mark]"

definition group1 :: "string list \<Rightarrow> string" where
  "group1 ms = (case ms of o1 # c1 # _ \<Rightarrow> take (length o1 - length c1) o1 | _ \<Rightarrow> [])"

definition courseKey :: "CanvasCourse \<Rightarrow> string" where
  "courseKey c =
     (case exec rx_subject (c_course_code c) of
        Some (b, ms, a) \<Rightarrow> group1 ms
      | None \<Rightarrow> c_course_code c)"

definition annotate :: "CanvasCourse \<Rightarrow> ApiAssignment \<Rightarrow> CanvasAssignment" where
  "annotate c a =
     \<lparr>a_id = a_id a, name = name a, description = description a, html_url = html_url a,
      points_possible = points_possible a, due_at = due_at a,
      course_code = c_course_code c, course_name = c_name c, course = courseKey c\<rparr>"

definition assignmentsUrl :: "CanvasAssignmentProcessorSettings \<Rightarrow> CanvasCourse \<Rightarrow> string" where
  "assignmentsUrl settings c =
     canvasApiBase settings @ ''/courses/'' @ toString_nat (c_id c) @ ''/assignments?include[]=submission''"

definition coursesUrl :: "CanvasAssignmentProcessorSettings \<Rightarrow> string" where
  "coursesUrl settings = canvasApiBase settings @ ''/courses?include[]=term&enrollment_state=active''"

fun fetch_courses_loop ::
  "CanvasAssignmentProcessorSettings \<Rightarrow> (string \<Rightarrow> ApiAssignment response) \<Rightarrow> CanvasCourse list
     \<Rightarrow> CanvasAssignment list \<Rightarrow> CanvasAssignment list option"
where
  "fetch_courses_loop settings req [] allAssignments = Some allAssignments"
| "fetch_courses_loop settings req (c # cs) allAssignments =
     (case getAllPages req (assignmentsUrl settings c) of
        None \<Rightarrow> None
      | Some (assignments, _) \<Rightarrow>
          fetch_courses_loop settings req cs (allAssignments @ map (annotate c) assignments))"

definition fetchCanvasAssignments ::
  "CanvasAssignmentProcessorSettings \<Rightarrow> (string \<Rightarrow> CanvasCourse response)
     \<Rightarrow> (string \<Rightarrow> ApiAssignment response) \<Rightarrow> CanvasAssignment list option"
where
  "fetchCanvasAssignments settings reqCourses reqAssignments =
     (case getAllPages reqCourses (coursesUrl settings) of
        None \<Rightarrow> None
      | Some (courses, _) \<Rightarrow>
          fetch_courses_loop settings reqAssignments
            (filter (isCurrentSemesterCourse settings) courses) [])"

section \<open>Fingerprint\<close>

text \<open>
  \<^verbatim>\<open>getAssignmentHash(assignment: CanvasAssignment): string {
    const relevantData = {
      name: assignment.name,
      description: assignment.description,
      points_possible: assignment.points_possible,
      html_url: assignment.html_url
    };
    return JSON.stringify(relevantData);
  }\<close>

  \<^verbatim>\<open>JSON.stringify\<close> writes the four properties in this order, without white space. A string
  is quoted with the escapes of \<^verbatim>\<open>QuoteJSONString\<close>: the two-character escapes for backspace,
  tab, line feed, form feed, carriage return, the double quote and the backslash, and
  \<^verbatim>\<open>\u00xx\<close> for the other code units below 32. The number \<open>points_possible\<close> is written by
  \<open>JSON_number\<close>.
\<close>

definition hexDigit :: "nat \<Rightarrow> char" where
  "hexDigit n = (if n < 10 then char_of (48 + n) else char_of (87 + n))"

definition quoteJSONChar :: "char \<Rightarrow> string" where
  "quoteJSONChar c =
     (if c = CHR 0x08 then [CHR 0x5C, CHR ''b'']
      else if c = CHR 0x09 then [CHR 0x5C, CHR ''t'']
      else if c = CHR 0x0A then [CHR 0x5C, CHR ''n'']
      else if c = CHR 0x0C then [CHR 0x5C, CHR ''f'']
      else if c = CHR 0x0D then [CHR 0x5C, CHR ''r'']
      else if c = CHR 0x22 then [CHR 0x5C, CHR 0x22]
      else if c = CHR 0x5C then [CHR 0x5C, CHR 0x5C]
      else if (of_char c :: nat) < 32
      then [CHR 0x5C, CHR ''u'', CHR ''0'', CHR ''0'', hexDigit (of_char c div 16), hexDigit (of_char c mod 16)]
      else [c])"

definition quoteJSONString :: "string \<Rightarrow> string" where
  "quoteJSONString s = [CHR 0x22] @ concat (map quoteJSONChar s) @ [CHR 0x22]"

definition getAssignmentHash :: "CanvasAssignment \<Rightarrow> string" where
  "getAssignmentHash assignment =
     [CHR ''{'', CHR 0x22] @ ''name'' @ [CHR 0x22, CHR '':''] @ quoteJSONString (name assignment)
     @ [CHR '','', CHR 0x22] @ ''description'' @ [CHR 0x22, CHR '':''] @ quoteJSONString (description assignment)
     @ [CHR '','', CHR 0x22] @ ''points_possible'' @ [CHR 0x22, CHR '':''] @ JSON_number (points_possible assignment)
     @ [CHR '','', CHR 0x22] @ ''html_url'' @ [CHR 0x22, CHR '':''] @ quoteJSONString (html_url assignment)
     @ [CHR ''}'']"

section \<open>The vault and the other collaborators\<close>

text \<open>
  The note storage, the template engine, the date library and the JSON codec are not part of
  the plugin. They are parameters of the model: operations on an abstract vault state \<open>'v\<close>.
  An operation that can throw returns \<open>None\<close> (a read) or the flag \<open>False\<close> with the vault it
  left behind (a write).
\<close>

record TFile =
  path :: string
  basename :: string

text \<open>
  The fingerprint store is what \<^verbatim>\<open>JSON.parse\<close> makes of the store file; nothing checks that it
  is an object of strings. The loop reads and writes one property of it, under a key that
  holds a hyphen, so no property of a prototype is met. A \<open>store\<close> is the parsed value as the
  loop sees it: \<open>Null\<close>, on which reading a property throws; \<open>Primitive\<close>, a boolean, a number
  or a string, on which reading gives \<^verbatim>\<open>undefined\<close> and writing throws (the file is a module,
  so its code is strict); or \<open>Object m\<close>, an object or an array with its own properties \<open>m\<close>. A
  property holds a string, or another value, of which the loop only tests the truthiness.
\<close>

datatype stored = Str string | NonString bool

datatype store = Null | Primitive | Object "string \<rightharpoonup> stored"

record 'v collaborators =
  adapter_exists :: "'v \<Rightarrow> string \<Rightarrow> bool option"
  adapter_read :: "'v \<Rightarrow> string \<Rightarrow> string option"
  adapter_write :: "'v \<Rightarrow> string \<Rightarrow> string \<Rightarrow> bool \<times> 'v"
  createFolder :: "'v \<Rightarrow> string \<Rightarrow> bool \<times> 'v"
  getMarkdownFiles :: "'v \<Rightarrow> TFile list option"
  getAbstractFileByPath :: "'v \<Rightarrow> string \<Rightarrow> TFile option"
  vault_read :: "'v \<Rightarrow> TFile \<Rightarrow> string option"
  vault_create :: "'v \<Rightarrow> string \<Rightarrow> string \<Rightarrow> TFile option \<times> 'v"
  vault_modify :: "'v \<Rightarrow> TFile \<Rightarrow> string \<Rightarrow> bool \<times> 'v"
  overwrite_file_commands :: "'v \<Rightarrow> TFile \<Rightarrow> bool \<times> 'v"
  templater :: bool
  format_YYYY_MM_DD :: "string \<Rightarrow> string"
  format_MMMM_Do_YYYY :: "string \<Rightarrow> string"
  JSON_parse :: "string \<Rightarrow> store option"
  JSON_stringify :: "store \<Rightarrow> string"

text \<open>
  \<^verbatim>\<open>async loadProcessedAssignments(): Promise<Record<string, string>> {
    try {
      if (await this.app.vault.adapter.exists(PROCESSED_ASSIGNMENTS_PATH)) {
        const content = await this.app.vault.adapter.read(PROCESSED_ASSIGNMENTS_PATH);
        return JSON.parse(content);
      }
      return {};
    } catch (error) { return {}; }
  }
  async saveProcessedAssignments(processedAssignments: Record<string, string>) {
    try {
      await this.app.vault.adapter.write(PROCESSED_ASSIGNMENTS_PATH,
        JSON.stringify(processedAssignments, null, 2));
    } catch (error) { }
  }
  findExistingAssignmentFile(directoryPath: string, cleanedName: string): TFile | null {
    try {
      const files = this.app.vault.getMarkdownFiles()
        .filter(file => file.path.startsWith(directoryPath));
      return files.find(file => {
        const fileCleanedName = this.cleanAssignmentName(file.basename);
        return fileCleanedName === cleanedName;
      }) || null;
    } catch (error) { return null; }
  }\<close>
\<close>

definition PROCESSED_ASSIGNMENTS_PATH :: string where
  "PROCESSED_ASSIGNMENTS_PATH = ''processed_assignments.json''"

definition loadProcessedAssignments :: "'v collaborators \<Rightarrow> 'v \<Rightarrow> store" where
  "loadProcessedAssignments env v =
     (case adapter_exists env v PROCESSED_ASSIGNMENTS_PATH of
        None \<Rightarrow> Object Map.empty
      | Some False \<Rightarrow> Object Map.empty
      | Some True \<Rightarrow>
          (case adapter_read env v PROCESSED_ASSIGNMENTS_PATH of
             None \<Rightarrow> Object Map.empty
           | Some content \<Rightarrow>
               (case JSON_parse env content of None \<Rightarrow> Object Map.empty | Some parsed \<Rightarrow> parsed)))"

definition saveProcessedAssignments :: "'v collaborators \<Rightarrow> 'v \<Rightarrow> store \<Rightarrow> 'v" where
  "saveProcessedAssignments env v processedAssignments =
     snd (adapter_write env v PROCESSED_ASSIGNMENTS_PATH (JSON_stringify env processedAssignments))"

definition findExistingAssignmentFile :: "'v collaborators \<Rightarrow> 'v \<Rightarrow> string \<Rightarrow> string \<Rightarrow> TFile option" where
  "findExistingAssignmentFile env v directoryPath cleanedName =
     (case getMarkdownFiles env v of
        None \<Rightarrow> None
      | Some files \<Rightarrow>
          find (\<lambda>file. cleanAssignmentName (basename file) = cleanedName)
            (filter (\<lambda>file. startsWith (path file) directoryPath) files))"

section \<open>Rewriting a note\<close>

text \<open>
  \<^verbatim>\<open>async updateDueDate(existingFile: TFile, newDueDate: string): Promise<boolean> {
    try {
      const content = await this.app.vault.read(existingFile);
      let updatedContent = content.replace(/duedate: .*$/m, `duedate: ${newDueDate}`);
      const formattedDate = newDueDate ?
        moment(newDueDate).format('MMMM Do YYYY') : 'No Due Date';
      updatedContent = updatedContent.replace(/Due Date: .*$/m, `Due Date: ${formattedDate}`);
      await this.app.vault.modify(existingFile, updatedContent);
      return true;
    } catch (error) { return false; }
  }\<close>

  In \<open>createAssignmentNotes\<close> a new note gets the text \<open>enrichedContent\<close>, and the update of an
  existing note is

  \<^verbatim>\<open>const updatedContent = existingContent.replace(
    /## Assignment Details[\s\S]*$/,
    `## Assignment Details\nPoints: ${assignment.points_possible}\n\n### Description\n${
      assignment.description || ''}\n\n[View on Canvas](${assignment.html_url})\n`);\<close>

  The due date of a note is read with \<^verbatim>\<open>fileContent.match(/duedate: (.*?)(\n|$)/)\<close>, group 1,
  trimmed, and is the empty string when there is no match.
\<close>

definition NL :: string where
  "NL = [CHR 0x0A]"

definition lit :: "string \<Rightarrow> regex" where
  "lit s = map (\<lambda>ch. One (\<lambda>c. c = ch)) s"

definition rx_duedate_line :: regex where
  "rx_duedate_line = lit ''duedate: '' @ [Star (\<lambda>c. \<not> isLineTerminator c), EndLine]"

definition rx_DueDate_line :: regex where
  "rx_DueDate_line = lit ''Due Date: '' @ [Star (\<lambda>c. \<not> isLineTerminator c), EndLine]"

definition rx_duedate_field :: regex where
  "rx_duedate_field =
     lit ''duedate: '' @ [Mark, LazyStar (\<lambda>c. \<not> isLineTerminator c), Mark,
                          Mark, Alt (One (\<lambda>c. c = CHR 0x0A)) EndInput, Mark]"

definition rx_details :: regex where
  "rx_details = lit ''## Assignment Details'' @ [Star (\<lambda>c. isWhiteSpace c \<or> \<not> isWhiteSpace c), EndInput]"

definition updateDueDate :: "'v collaborators \<Rightarrow> 'v \<Rightarrow> TFile \<Rightarrow> string \<Rightarrow> bool \<times> 'v" where
  "updateDueDate env v existingFile newDueDate =
     (case vault_read env v existingFile of
        None \<Rightarrow> (False, v)
      | Some content \<Rightarrow>
          (let updatedContent = replace_first rx_duedate_line (''duedate: '' @ newDueDate) content;
               formattedDate = (if newDueDate \<noteq> [] then format_MMMM_Do_YYYY env newDueDate
                                else ''No Due Date'');
               updatedContent' = replace_first rx_DueDate_line (''Due Date: '' @ formattedDate) updatedContent
           in vault_modify env v existingFile updatedContent'))"

definition enrichedContent :: "CanvasAssignment \<Rightarrow> string \<Rightarrow> string" where
  "enrichedContent assignment templateContent =
     templateContent @ NL @ NL @ ''## Assignment Details'' @ NL
       @ ''Points: '' @ Number_toString (points_possible assignment) @ NL
       @ (if description assignment \<noteq> []
          then NL @ ''### Description'' @ NL @ description assignment @ NL else [])
       @ (if html_url assignment \<noteq> []
          then NL @ ''[View on Canvas]('' @ html_url assignment @ '')'' @ NL else [])"

definition detailsSection :: "CanvasAssignment \<Rightarrow> string" where
  "detailsSection assignment =
     ''## Assignment Details'' @ NL @ ''Points: '' @ Number_toString (points_possible assignment) @ NL @ NL
       @ ''### Description'' @ NL @ description assignment @ NL @ NL
       @ ''[View on Canvas]('' @ html_url assignment @ '')'' @ NL"

definition updatedContent :: "CanvasAssignment \<Rightarrow> string \<Rightarrow> string" where
  "updatedContent assignment existingContent =
     replace_first rx_details (detailsSection assignment) existingContent"

section \<open>The reconciliation loop\<close>

text \<open>
  The body of the loop of \<open>createAssignmentNotes\<close> over the assignments, in the order of the
  source: the paths, the key and the fingerprint; the three folders (\<open>ensureDirectories\<close>, a
  failure continues with the next assignment); the search for the note; then either the
  creation of the note (\<open>createNote\<close>, a failure continues), or, for a note that exists, the
  content update when \<^verbatim>\<open>previousHash && previousHash !== currentHash\<close> (\<open>contentUpdate\<close>, a
  failure continues) followed by the due-date pass (\<open>dueDatePass\<close>; its first read is outside
  every inner \<^verbatim>\<open>try\<close>, so a failure there ends the run in the outer \<^verbatim>\<open>catch\<close>); at the end
  \<^verbatim>\<open>processedAssignments[assignmentKey] = currentHash\<close>. A \<open>flow\<close> says how an iteration ended:
  \<open>Normal\<close> at the end of the body, \<open>Continue\<close> at a \<^verbatim>\<open>continue\<close>, \<open>Throw\<close> with an exception
  that leaves the loop.

  The two accesses to the store are outside every inner \<^verbatim>\<open>try\<close> as well. The read
  \<^verbatim>\<open>processedAssignments[assignmentKey]\<close>, after the search for the note, throws when the store
  is \<^verbatim>\<open>null\<close>; the write at the end of the body throws when the store is a primitive value.
  \<open>previousHash\<close> is the value read, \<open>None\<close> for \<^verbatim>\<open>undefined\<close>; \<open>contentChanged\<close> is the test
  \<^verbatim>\<open>previousHash && previousHash !== currentHash\<close>, where a value that is no string differs from
  every fingerprint.
\<close>

record 'v run_state =
  vault :: 'v
  processedAssignments :: store
  createdCount :: nat
  updatedCount :: nat
  dueDateUpdatedCount :: nat
  skippedCount :: nat

datatype 's flow =
    is_Normal: Normal (flow_state: 's)
  | is_Continue: Continue (flow_state: 's)
  | is_Throw: Throw (flow_state: 's)

definition semesterFolder :: "CanvasAssignmentProcessorSettings \<Rightarrow> string" where
  "semesterFolder settings = semester settings @ '' '' @ year settings"

definition directoryPath :: "CanvasAssignmentProcessorSettings \<Rightarrow> CanvasAssignment \<Rightarrow> string" where
  "directoryPath settings assignment =
     semesterFolder settings @ ''/'' @ course assignment @ ''/Assignments''"

definition formattedDate :: "'v collaborators \<Rightarrow> CanvasAssignment \<Rightarrow> string" where
  "formattedDate env assignment =
     (case due_at assignment of
        None \<Rightarrow> []
      | Some d \<Rightarrow> if d = [] then [] else format_YYYY_MM_DD env d)"

definition formattedTitle :: "'v collaborators \<Rightarrow> CanvasAssignment \<Rightarrow> string" where
  "formattedTitle env assignment =
     cleanAssignmentName (name assignment) @ '' [Assignment] [-'' @ course assignment @ ''-] ''
       @ formattedDate env assignment"

definition newNotePath :: "'v collaborators \<Rightarrow> CanvasAssignmentProcessorSettings \<Rightarrow> CanvasAssignment \<Rightarrow> string" where
  "newNotePath env settings assignment =
     directoryPath settings assignment @ ''/'' @ formattedTitle env assignment @ ''.md''"

definition assignmentKey :: "CanvasAssignment \<Rightarrow> string" where
  "assignmentKey assignment =
     toLowerCase (course assignment @ ''-'' @ cleanAssignmentName (name assignment))"

definition ensureFolder :: "'v collaborators \<Rightarrow> 'v \<Rightarrow> string \<Rightarrow> bool \<times> 'v" where
  "ensureFolder env v p =
     (case adapter_exists env v p of
        None \<Rightarrow> (False, v)
      | Some True \<Rightarrow> (True, v)
      | Some False \<Rightarrow> createFolder env v p)"

definition ensureDirectories ::
  "'v collaborators \<Rightarrow> CanvasAssignmentProcessorSettings \<Rightarrow> CanvasAssignment \<Rightarrow> 'v \<Rightarrow> bool \<times> 'v" where
  "ensureDirectories env settings assignment v =
     (case ensureFolder env v (semesterFolder settings) of
        (False, v1) \<Rightarrow> (False, v1)
      | (True, v1) \<Rightarrow>
          (case ensureFolder env v1 (semesterFolder settings @ ''/'' @ course assignment) of
             (False, v2) \<Rightarrow> (False, v2)
           | (True, v2) \<Rightarrow> ensureFolder env v2 (directoryPath settings assignment)))"

definition createNote ::
  "'v collaborators \<Rightarrow> CanvasAssignmentProcessorSettings \<Rightarrow> CanvasAssignment \<Rightarrow> 'v \<Rightarrow> bool \<times> 'v" where
  "createNote env settings assignment v =
     (case getAbstractFileByPath env v (templatePath settings) of
        None \<Rightarrow> (False, v)
      | Some templateFile \<Rightarrow>
          (case vault_read env v templateFile of
             None \<Rightarrow> (False, v)
           | Some templateContent \<Rightarrow>
               (case vault_create env v (newNotePath env settings assignment)
                       (enrichedContent assignment templateContent) of
                  (None, v1) \<Rightarrow> (False, v1)
                | (Some file, v1) \<Rightarrow> overwrite_file_commands env v1 file)))"

fun isNull :: "store \<Rightarrow> bool" where
  "isNull Null = True"
| "isNull s = False"

definition previousHash :: "store \<Rightarrow> string \<Rightarrow> stored option" where
  "previousHash s k = (case s of Object m \<Rightarrow> m k | _ \<Rightarrow> None)"

definition contentChanged :: "store \<Rightarrow> CanvasAssignment \<Rightarrow> bool" where
  "contentChanged s assignment =
     (case previousHash s (assignmentKey assignment) of
        None \<Rightarrow> False
      | Some (Str h) \<Rightarrow> h \<noteq> [] \<and> h \<noteq> getAssignmentHash assignment
      | Some (NonString truthy) \<Rightarrow> truthy)"

definition contentUpdate ::
  "'v collaborators \<Rightarrow> CanvasAssignment \<Rightarrow> TFile \<Rightarrow> 'v run_state \<Rightarrow> 'v run_state flow" where
  "contentUpdate env assignment existingFile st =
     (case vault_read env (vault st) existingFile of
        None \<Rightarrow> Continue st
      | Some existingContent \<Rightarrow>
          (case vault_modify env (vault st) existingFile (updatedContent assignment existingContent) of
             (False, v1) \<Rightarrow> Continue (st\<lparr>vault := v1\<rparr>)
           | (True, v1) \<Rightarrow> Normal (st\<lparr>vault := v1, updatedCount := updatedCount st + 1\<rparr>)))"

definition currentDueDate :: "string \<Rightarrow> string" where
  "currentDueDate fileContent =
     (case exec rx_duedate_field fileContent of
        None \<Rightarrow> []
      | Some (b, ms, a) \<Rightarrow> trim (group1 ms))"

definition dueDatePass ::
  "'v collaborators \<Rightarrow> CanvasAssignment \<Rightarrow> TFile \<Rightarrow> 'v run_state \<Rightarrow> 'v run_state flow" where
  "dueDatePass env assignment existingFile st =
     (case vault_read env (vault st) existingFile of
        None \<Rightarrow> Throw st
      | Some fileContent \<Rightarrow>
          if currentDueDate fileContent \<noteq> formattedDate env assignment
          then (case updateDueDate env (vault st) existingFile (formattedDate env assignment) of
                  (True, v1) \<Rightarrow> Normal (st\<lparr>vault := v1, dueDateUpdatedCount := dueDateUpdatedCount st + 1\<rparr>)
                | (False, v1) \<Rightarrow> Normal (st\<lparr>vault := v1\<rparr>))
          else Normal (st\<lparr>skippedCount := skippedCount st + 1\<rparr>))"

definition reconcile ::
  "'v collaborators \<Rightarrow> CanvasAssignmentProcessorSettings \<Rightarrow> CanvasAssignment \<Rightarrow> 'v run_state
     \<Rightarrow> 'v run_state flow" where
  "reconcile env settings assignment st =
     (let existingFile = findExistingAssignmentFile env (vault st) (directoryPath settings assignment)
             (cleanAssignmentName (name assignment))
      in if isNull (processedAssignments st) then Throw st
         else
           (case existingFile of
              None \<Rightarrow>
                (case createNote env settings assignment (vault st) of
                   (False, v1) \<Rightarrow> Continue (st\<lparr>vault := v1\<rparr>)
                 | (True, v1) \<Rightarrow> Normal (st\<lparr>vault := v1, createdCount := createdCount st + 1\<rparr>))
            | Some existingFile \<Rightarrow>
                if contentChanged (processedAssignments st) assignment
                then (case contentUpdate env assignment existingFile st of
                        Normal st1 \<Rightarrow> dueDatePass env assignment existingFile st1
                      | Continue st1 \<Rightarrow> Continue st1
                      | Throw st1 \<Rightarrow> Throw st1)
                else dueDatePass env assignment existingFile st))"

definition writeStore :: "store \<Rightarrow> string \<Rightarrow> string \<Rightarrow> store option" where
  "writeStore s k h = (case s of Object m \<Rightarrow> Some (Object (m(k \<mapsto> Str h))) | _ \<Rightarrow> None)"

definition processAssignment ::
  "'v collaborators \<Rightarrow> CanvasAssignmentProcessorSettings \<Rightarrow> CanvasAssignment \<Rightarrow> 'v run_state
     \<Rightarrow> 'v run_state flow" where
  "processAssignment env settings assignment st =
     (case ensureDirectories env settings assignment (vault st) of
        (False, v1) \<Rightarrow> Continue (st\<lparr>vault := v1\<rparr>)
      | (True, v1) \<Rightarrow>
          (case reconcile env settings assignment (st\<lparr>vault := v1\<rparr>) of
             Normal st2 \<Rightarrow>
               (case writeStore (processedAssignments st2) (assignmentKey assignment)
                       (getAssignmentHash assignment) of
                  None \<Rightarrow> Throw st2
                | Some written \<Rightarrow> Normal (st2\<lparr>processedAssignments := written\<rparr>))
           | Continue st2 \<Rightarrow> Continue st2
           | Throw st2 \<Rightarrow> Throw st2))"

definition counters :: "'v run_state \<Rightarrow> nat \<times> nat \<times> nat \<times> nat" where
  "counters st = (createdCount st, updatedCount st, dueDateUpdatedCount st, skippedCount st)"

fun assignments_loop ::
  "'v collaborators \<Rightarrow> CanvasAssignmentProcessorSettings \<Rightarrow> CanvasAssignment list \<Rightarrow> 'v run_state
     \<Rightarrow> 'v run_state + 'v run_state" where
  "assignments_loop env settings [] st = Inr st"
| "assignments_loop env settings (assignment # rest) st =
     (case processAssignment env settings assignment st of
        Normal st1 \<Rightarrow> assignments_loop env settings rest st1
      | Continue st1 \<Rightarrow> assignments_loop env settings rest st1
      | Throw st1 \<Rightarrow> Inl st1)"

datatype notice = Notice string | ErrorNotice

definition summaryNotice :: "'v run_state \<Rightarrow> notice" where
  "summaryNotice st =
     Notice (''Created '' @ toString_nat (createdCount st) @ '' new notes, updated ''
       @ toString_nat (updatedCount st) @ '', updated '' @ toString_nat (dueDateUpdatedCount st)
       @ '' due dates, skipped '' @ toString_nat (skippedCount st) @ '' unchanged notes'')"

definition createAssignmentNotes ::
  "'v collaborators \<Rightarrow> CanvasAssignmentProcessorSettings \<Rightarrow> (string \<Rightarrow> CanvasCourse response)
     \<Rightarrow> (string \<Rightarrow> ApiAssignment response) \<Rightarrow> 'v \<Rightarrow> (notice list \<times> 'v) option" where
  "createAssignmentNotes env settings reqCourses reqAssignments v =
     (if \<not> templater env
      then Some ([Notice ''Templater plugin not found! Please install and enable it.''], v)
      else
        (case fetchCanvasAssignments settings reqCourses reqAssignments of
           None \<Rightarrow> None
         | Some assignments \<Rightarrow>
             (case assignments_loop env settings assignments
                     \<lparr>vault = v, processedAssignments = loadProcessedAssignments env v,
                      createdCount = 0, updatedCount = 0, dueDateUpdatedCount = 0, skippedCount = 0\<rparr> of
                Inl st \<Rightarrow>
                  Some ([Notice (''Fetching Canvas assignments for '' @ semester settings @ '' ''
                           @ year settings @ ''...''), ErrorNotice], vault st)
              | Inr st \<Rightarrow>
                  Some ([Notice (''Fetching Canvas assignments for '' @ semester settings @ '' ''
                           @ year settings @ ''...''), summaryNotice st],
                        saveProcessedAssignments env (vault st) (processedAssignments st)))))"

section \<open>The name cleaner, in the words of the specification\<close>

text \<open>
  A second definition of the name cleaner, written from the specification and not from the
  source: strip the bracketed tags, strip the \<open>-XXX###-\<close> tokens, strip one \<open>YYYY-MM-DD\<close> date,
  strip the characters \<^verbatim>\<open>*"\/<>:|?\<close>, collapse white space, trim. A tag runs from an opening
  bracket to the next closing bracket on the same line (\<open>tag_rest\<close> is the text after that
  closing bracket). \<open>strip_every P n\<close> removes, from left to right, every block of \<open>n + 1\<close>
  characters that satisfies \<open>P\<close>; \<open>strip_first P n\<close> removes the first one.
\<close>

fun tag_rest :: "string \<Rightarrow> string option" where
  "tag_rest [] = None"
| "tag_rest (c # cs) =
     (if c = CHR '']'' then Some cs else if isLineTerminator c then None else tag_rest cs)"

lemma tag_rest_shorter: "tag_rest cs = Some r \<Longrightarrow> length r < length cs"
  by (induction cs) (auto split: if_splits)

function strip_tags :: "string \<Rightarrow> string" where
  "strip_tags [] = []"
| "strip_tags (c # cs) =
     (if c = CHR ''[''
      then (case tag_rest cs of Some r \<Rightarrow> strip_tags r | None \<Rightarrow> c # strip_tags cs)
      else c # strip_tags cs)"
  by pat_completeness auto
termination
  by (relation "measure length") (auto dest: tag_rest_shorter)

definition is_course_token :: "string \<Rightarrow> bool" where
  "is_course_token t =
     (length t = 8 \<and> t ! 0 = CHR ''-'' \<and> list_all isUpper (take 3 (drop 1 t))
      \<and> list_all isDigit (take 3 (drop 4 t)) \<and> t ! 7 = CHR ''-'')"

definition is_date :: "string \<Rightarrow> bool" where
  "is_date t =
     (length t = 10 \<and> list_all isDigit (take 4 t) \<and> t ! 4 = CHR ''-''
      \<and> list_all isDigit (take 2 (drop 5 t)) \<and> t ! 7 = CHR ''-''
      \<and> list_all isDigit (take 2 (drop 8 t)))"

fun strip_every :: "(string \<Rightarrow> bool) \<Rightarrow> nat \<Rightarrow> string \<Rightarrow> string" where
  "strip_every P n [] = []"
| "strip_every P n (c # cs) =
     (if P (take (Suc n) (c # cs)) then strip_every P n (drop n cs) else c # strip_every P n cs)"

fun strip_first :: "(string \<Rightarrow> bool) \<Rightarrow> nat \<Rightarrow> string \<Rightarrow> string" where
  "strip_first P n [] = []"
| "strip_first P n (c # cs) =
     (if P (take (Suc n) (c # cs)) then drop n cs else c # strip_first P n cs)"

function collapse_spaces :: "string \<Rightarrow> string" where
  "collapse_spaces [] = []"
| "collapse_spaces (c # cs) =
     (if isWhiteSpace c then CHR '' '' # collapse_spaces (dropWhile isWhiteSpace cs)
      else c # collapse_spaces cs)"
  by pat_completeness auto
termination
  by (relation "measure length") (auto simp: le_imp_less_Suc length_dropWhile_le)

definition strip_course_tokens :: "string \<Rightarrow> string" where
  "strip_course_tokens s = strip_every is_course_token 7 s"

definition strip_date :: "string \<Rightarrow> string" where
  "strip_date s = strip_first is_date 9 s"

definition strip_illegal :: "string \<Rightarrow> string" where
  "strip_illegal s = filter (\<lambda>c. c \<notin> set illegalChars) s"

definition cleanName_spec :: "string \<Rightarrow> string" where
  "cleanName_spec rawTitle =
     trim (collapse_spaces (strip_illegal (strip_date (strip_course_tokens (strip_tags rawTitle)))))"

section \<open>Auxiliary definitions of the proofs\<close>

text \<open>
  \<open>single_spaced\<close> describes a string whose only whitespace is single blanks; \<open>unquoteJSONChar\<close>
  reads one character back from its JSON escape. Neither is part of the plugin.
\<close>

fun single_spaced :: "string \<Rightarrow> bool" where
  "single_spaced [] = True"
| "single_spaced (c # cs) =
     ((if isWhiteSpace c then c = CHR '' '' \<and> (case cs of [] \<Rightarrow> True | d # _ \<Rightarrow> \<not> isWhiteSpace d) else True)
      \<and> single_spaced cs)"

definition hexValue :: "char \<Rightarrow> nat" where
  "hexValue h = (if (of_char h :: nat) < 58 then of_char h - 48 else of_char h - 87)"

fun unquoteJSONChar :: "string \<Rightarrow> (char \<times> string) option" where
  "unquoteJSONChar [] = None"
| "unquoteJSONChar [c] = (if c = CHR 0x5C then None else Some (c, []))"
| "unquoteJSONChar (c # e # r) =
     (if c \<noteq> CHR 0x5C then Some (c, e # r)
      else if e = CHR ''b'' then Some (CHR 0x08, r)
      else if e = CHR ''t'' then Some (CHR 0x09, r)
      else if e = CHR ''n'' then Some (CHR 0x0A, r)
      else if e = CHR ''f'' then Some (CHR 0x0C, r)
      else if e = CHR ''r'' then Some (CHR 0x0D, r)
      else if e = CHR ''u'' then
        (case r of
           z1 # z2 # h1 # h2 # r' \<Rightarrow> Some (char_of (hexValue h1 * 16 + hexValue h2), r')
         | _ \<Rightarrow> None)
      else Some (e, r))"

definition changedBy :: "store \<Rightarrow> CanvasAssignment \<Rightarrow> nat" where
  "changedBy store a = (if contentChanged store a then 1 else 0)"

section \<open>An example vault\<close>

text \<open>
  A small vault to run the model on: folders and files in a list, the notes being the files
  named \<^verbatim>\<open>.md\<close>; no operation fails but the creation of what exists and the change of what
  does not, the template engine leaves a note as it is, the date library cuts an ISO
  timestamp to its first ten characters, and the JSON codec reads \<^verbatim>\<open>null\<close> and nothing else.
\<close>

record simple_vault =
  folders :: "string list"
  vault_files :: "(string \<times> string) list"

definition basename_of :: "string \<Rightarrow> string" where
  "basename_of p =
     (let nm = rev (takeWhile (\<lambda>c. c \<noteq> CHR ''/'') (rev p))
      in if CHR ''.'' \<in> set nm then rev (tl (dropWhile (\<lambda>c. c \<noteq> CHR ''.'') (rev nm))) else nm)"

definition tfile :: "string \<Rightarrow> TFile" where
  "tfile p = \<lparr>path = p, basename = basename_of p\<rparr>"

definition set_content :: "string \<Rightarrow> string \<Rightarrow> (string \<times> string) list \<Rightarrow> (string \<times> string) list" where
  "set_content p content fs = map (\<lambda>(q, c). if q = p then (q, content) else (q, c)) fs"

definition simple_collaborators :: "simple_vault collaborators" where
  "simple_collaborators =
     \<lparr>adapter_exists = (\<lambda>v p. Some (p \<in> set (folders v) \<or> p \<in> set (map fst (vault_files v)))),
      adapter_read = (\<lambda>v p. map_of (vault_files v) p),
      adapter_write = (\<lambda>v p content.
         if p \<in> set (map fst (vault_files v)) then (True, v\<lparr>vault_files := set_content p content (vault_files v)\<rparr>)
         else (True, v\<lparr>vault_files := vault_files v @ [(p, content)]\<rparr>)),
      createFolder = (\<lambda>v p. if p \<in> set (folders v) then (False, v) else (True, v\<lparr>folders := folders v @ [p]\<rparr>)),
      getMarkdownFiles = (\<lambda>v. Some (map (\<lambda>(p, _). tfile p)
         (filter (\<lambda>(p, _). startsWith (rev p) (rev ''.md'')) (vault_files v)))),
      getAbstractFileByPath = (\<lambda>v p. if p \<in> set (map fst (vault_files v)) then Some (tfile p) else None),
      vault_read = (\<lambda>v f. map_of (vault_files v) (path f)),
      vault_create = (\<lambda>v p content.
         if p \<in> set (map fst (vault_files v)) then (None, v)
         else (Some (tfile p), v\<lparr>vault_files := vault_files v @ [(p, content)]\<rparr>)),
      vault_modify = (\<lambda>v f content.
         if path f \<in> set (map fst (vault_files v)) then (True, v\<lparr>vault_files := set_content (path f) content (vault_files v)\<rparr>)
         else (False, v)),
      overwrite_file_commands = (\<lambda>v f. (True, v)),
      templater = True,
      format_YYYY_MM_DD = take 10,
      format_MMMM_Do_YYYY = (\<lambda>d. d),
      JSON_parse = (\<lambda>s. if s = ''null'' then Some Null else None),
      JSON_stringify = (\<lambda>m. [])\<rparr>"

definition example_assignment :: CanvasAssignment where
  "example_assignment =
     \<lparr>a_id = 1, name = ''[HW] Essay'', description = ''Write'', html_url = ''http://x/1'',
      points_possible = Decimal False 1 2, due_at = None,
      course_code = ''2025SP-ENG101-01'', course_name = ''Writing'', course = ''ENG101''\<rparr>"

definition example_vault :: simple_vault where
  "example_vault =
     \<lparr>folders = [''Spring 2025'', ''Spring 2025/ENG101'', ''Spring 2025/ENG101/Assignments''],
      vault_files = [(''Spring 2025/ENG101/Assignments/Essay [Assignment] [-ENG101-] .md'',
                ''duedate: '' @ NL @ ''my notes'' @ NL @ ''## Assignment Details'' @ NL @ ''Points: 5'' @ NL)]\<rparr>"

definition example_state :: "simple_vault run_state" where
  "example_state =
     \<lparr>vault = example_vault, processedAssignments = Object [''eng101-essay'' \<mapsto> Str ''old''],
      createdCount = 0, updatedCount = 0, dueDateUpdatedCount = 0, skippedCount = 0\<rparr>"

definition example_assignment_due :: CanvasAssignment where
  "example_assignment_due = example_assignment\<lparr>due_at := Some ''2025-03-01T00:00:00Z''\<rparr>"

definition example_settings :: CanvasAssignmentProcessorSettings where
  "example_settings = DEFAULT_SETTINGS\<lparr>canvasApiBase := ''api''\<rparr>"

definition example_course1 :: CanvasCourse where
  "example_course1 = \<lparr>c_id = 7, c_name = ''Writing Spring 2025'', c_course_code = ''ENG101'', c_term = None\<rparr>"

definition example_course2 :: CanvasCourse where
  "example_course2 = \<lparr>c_id = 8, c_name = ''Algebra Spring 2025'', c_course_code = ''MAT200'', c_term = None\<rparr>"

definition example_api_assignment :: ApiAssignment where
  "example_api_assignment =
     \<lparr>a_id = 1, name = ''[HW] Essay'', description = ''Write'', html_url = ''http://x/1'',
      points_possible = Decimal False 1 2, due_at = None\<rparr>"

definition example_requests :: "string \<Rightarrow> ApiAssignment response" where
  "example_requests u =
     (if u = ''api/courses/7/assignments?include[]=submission&page=1&per_page=100''
      then Array (replicate 100 example_api_assignment)
      else if u = ''api/courses/8/assignments?include[]=submission&page=1&per_page=100''
      then Array [example_api_assignment]
      else Throws)"

definition example_vault_plain :: simple_vault where
  "example_vault_plain =
     \<lparr>folders = [''Spring 2025'', ''Spring 2025/ENG101'', ''Spring 2025/ENG101/Assignments''],
      vault_files = [(''Spring 2025/ENG101/Assignments/Essay [Assignment] [-ENG101-] .md'',
                ''duedate: '' @ NL @ ''my notes'' @ NL)]\<rparr>"

definition example_state_plain :: "simple_vault run_state" where
  "example_state_plain = example_state\<lparr>vault := example_vault_plain\<rparr>"

definition example_file :: TFile where
  "example_file = tfile ''Spring 2025/ENG101/Assignments/Essay [Assignment] [-ENG101-] .md''"

definition example_assignment_other :: CanvasAssignment where
  "example_assignment_other = example_assignment\<lparr>course := ''MAT200''\<rparr>"

definition example_vault_template :: simple_vault where
  "example_vault_template =
     \<lparr>folders = [], vault_files = [(''Templates/Assignment.md'', ''duedate: '' @ NL)]\<rparr>"

definition example_course_requests :: "string \<Rightarrow> CanvasCourse response" where
  "example_course_requests u =
     (if u = ''api/courses?include[]=term&enrollment_state=active&page=1&per_page=100''
      then Array [example_course2]
      else Throws)"

definition example_start :: "simple_vault run_state" where
  "example_start =
     \<lparr>vault = example_vault_template,
      processedAssignments = loadProcessedAssignments simple_collaborators example_vault_template,
      createdCount = 0, updatedCount = 0, dueDateUpdatedCount = 0, skippedCount = 0\<rparr>"

definition example_new_assignment :: CanvasAssignment where
  "example_new_assignment = annotate example_course2 example_api_assignment"

definition example_state_fresh :: "simple_vault run_state" where
  "example_state_fresh = example_state\<lparr>processedAssignments := Object Map.empty\<rparr>"

definition example_vault_null :: simple_vault where
  "example_vault_null =
     \<lparr>folders = [],
      vault_files = [(''Templates/Assignment.md'', ''duedate: '' @ NL), (''processed_assignments.json'', ''null'')]\<rparr>"

definition example_assignment_infinity :: CanvasAssignment where
  "example_assignment_infinity = example_assignment\<lparr>points_possible := Infinite False\<rparr>"

definition example_assignment_minus_infinity :: CanvasAssignment where
  "example_assignment_minus_infinity = example_assignment\<lparr>points_possible := Infinite True\<rparr>"

definition example_assignment_fraction :: CanvasAssignment where
  "example_assignment_fraction = example_assignment\<lparr>points_possible := Decimal False 75 1\<rparr>"

section \<open>Decimal numerals are injective\<close>

lemma toString_nat_not_Nil: "toString_nat n \<noteq> []"
  by (subst toString_nat.simps) simp

lemma digit_char_inj: "a < 10 \<Longrightarrow> b < 10 \<Longrightarrow> char_of (48 + a) = char_of (48 + b) \<Longrightarrow> a = (b::nat)"
  by simp

lemma toString_nat_inj: "toString_nat m = toString_nat n \<Longrightarrow> m = n"
proof (induction m arbitrary: n rule: toString_nat.induct)
  case (1 m)
  show ?case
  proof (cases "m < 10")
    case True
    then have m: "toString_nat m = [char_of (48 + m)]"
      by (subst toString_nat.simps) simp
    show ?thesis
    proof (cases "n < 10")
      case True
      then have "toString_nat n = [char_of (48 + n)]"
        by (subst toString_nat.simps) simp
      with m "1.prems" \<open>m < 10\<close> True show ?thesis
        using digit_char_inj by simp
    next
      case False
      then have "toString_nat n = toString_nat (n div 10) @ [char_of (48 + n mod 10)]"
        by (subst toString_nat.simps) simp
      with m "1.prems" have "toString_nat (n div 10) = []" by simp
      then show ?thesis using toString_nat_not_Nil by blast
    qed
  next
    case False
    then have m: "toString_nat m = toString_nat (m div 10) @ [char_of (48 + m mod 10)]"
      by (subst toString_nat.simps) simp
    show ?thesis
    proof (cases "n < 10")
      case True
      then have "toString_nat n = [char_of (48 + n)]"
        by (subst toString_nat.simps) simp
      with m "1.prems" have "toString_nat (m div 10) = []" by simp
      then show ?thesis using toString_nat_not_Nil by blast
    next
      case n: False
      then have "toString_nat n = toString_nat (n div 10) @ [char_of (48 + n mod 10)]"
        by (subst toString_nat.simps) simp
      with m "1.prems"
      have hi: "toString_nat (m div 10) = toString_nat (n div 10)"
        and lo: "char_of (48 + m mod 10) = char_of (48 + n mod 10)"
        by simp_all
      from "1.IH" [OF False hi] have "m div 10 = n div 10" .
      moreover from lo have "m mod 10 = n mod 10"
        using digit_char_inj [of "m mod 10" "n mod 10"] by simp
      ultimately have "m div 10 * 10 + m mod 10 = n div 10 * 10 + n mod 10"
        by simp
      then show ?thesis
        by (simp only: div_mult_mod_eq)
    qed
  qed
qed

lemma toString_nat_digits: "c \<in> set (toString_nat n) \<Longrightarrow> isDigit c"
proof (induction n rule: toString_nat.induct)
  case (1 n)
  show ?case
  proof (cases "n < 10")
    case True
    then have "toString_nat n = [char_of (48 + n)]"
      by (subst toString_nat.simps) simp
    with "1.prems" True show ?thesis by (simp add: isDigit_def)
  next
    case False
    then have "toString_nat n = toString_nat (n div 10) @ [char_of (48 + n mod 10)]"
      by (subst toString_nat.simps) simp
    with "1.prems" have "c \<in> set (toString_nat (n div 10)) \<or> c = char_of (48 + n mod 10)"
      by auto
    then show ?thesis
    proof
      assume "c \<in> set (toString_nat (n div 10))"
      then show ?thesis using "1.IH" [OF False] by simp
    next
      have "n mod 10 < 10" by simp
      then have "48 + n mod 10 < 58" by linarith
      moreover assume "c = char_of (48 + n mod 10)"
      ultimately show ?thesis by (simp add: isDigit_def)
    qed
  qed
qed

lemma pageUrl_inj: "pageUrl baseUrl k = pageUrl baseUrl k' \<Longrightarrow> k = k'"
  by (simp add: pageUrl_def toString_nat_inj)

section \<open>Pagination: full pages, then a short one\<close>

lemma getAllPages_loop_full_pages:
  assumes "\<forall>k\<in>{p..<p + n}. makeRequest (pageUrl baseUrl k) = Array (pages k) \<and> 100 \<le> length (pages k)"
  shows "getAllPages_loop makeRequest baseUrl allData p requests =
         getAllPages_loop makeRequest baseUrl (allData @ concat (map pages [p..<p + n])) (p + n)
           (requests @ map (pageUrl baseUrl) [p..<p + n])"
  using assms
proof (induction n arbitrary: p allData requests)
  case 0
  then show ?case by simp
next
  case (Suc n)
  from Suc.prems have here: "makeRequest (pageUrl baseUrl p) = Array (pages p)" "100 \<le> length (pages p)"
    by auto
  from Suc.prems
  have rest: "\<forall>k\<in>{Suc p..<Suc p + n}. makeRequest (pageUrl baseUrl k) = Array (pages k) \<and> 100 \<le> length (pages k)"
    by auto
  have step: "getAllPages_loop makeRequest baseUrl allData p requests =
      getAllPages_loop makeRequest baseUrl (allData @ pages p) (Suc p) (requests @ [pageUrl baseUrl p])"
    using here by (subst getAllPages_loop.simps) auto
  have lists: "[p..<p + Suc n] = p # [Suc p..<Suc p + n]"
    by (simp add: upt_conv_Cons)
  show ?case
    unfolding step Suc.IH [OF rest] lists by simp
qed

lemma getAllPages_loop_short_page:
  assumes "makeRequest (pageUrl baseUrl p) = Array data" and "length data < 100"
  shows "getAllPages_loop makeRequest baseUrl allData p requests =
         Some (allData @ data, requests @ [pageUrl baseUrl p])"
  using assms by (subst getAllPages_loop.simps) auto

lemma getAllPages_loop_throws:
  assumes "makeRequest (pageUrl baseUrl p) = Throws"
  shows "getAllPages_loop makeRequest baseUrl allData p requests =
         Some (allData, requests @ [pageUrl baseUrl p])"
  using assms by (subst getAllPages_loop.simps) auto

lemma length_concat_const:
  "\<forall>x\<in>set xs. length (f x) = c \<Longrightarrow> length (concat (map f xs)) = length xs * c"
  by (induction xs) auto

text \<open>
  Claim C1. When the page source answers pages \<open>1, \<dots>, N\<close> with 100 items each and page
  \<open>N + 1\<close> with fewer than 100 items (possibly none), \<open>getAllPages\<close> returns, issues
  exactly the \<open>N + 1\<close> requests for pages \<open>1, \<dots>, N + 1\<close> in this order (each URL built
  by \<open>pageUrl\<close>, which ends in \<open>page=k&per_page=100\<close>; no URL twice), and returns the pages' items
  concatenated in request order: \<open>N * 100\<close> items plus the last page's.
\<close>

theorem getAllPages_full_then_short:
  assumes full: "\<forall>k\<in>{1..N}. makeRequest (pageUrl baseUrl k) = Array (pages k) \<and> length (pages k) = 100"
    and last: "makeRequest (pageUrl baseUrl (N + 1)) = Array lastPage"
    and short: "length lastPage < 100"
  shows "getAllPages makeRequest baseUrl =
           Some (concat (map pages [1..<N + 1]) @ lastPage, map (pageUrl baseUrl) [1..<N + 2])
         \<and> length (map (pageUrl baseUrl) [1..<N + 2]) = N + 1
         \<and> distinct (map (pageUrl baseUrl) [1..<N + 2])
         \<and> length (concat (map pages [1..<N + 1]) @ lastPage) = N * 100 + length lastPage"
proof -
  have full': "\<forall>k\<in>{1..<1 + N}. makeRequest (pageUrl baseUrl k) = Array (pages k) \<and> 100 \<le> length (pages k)"
    using full by auto
  have len: "length (concat (map pages [1..<N + 1])) = N * 100"
    using length_concat_const [of "[1..<N + 1]" pages 100] full by auto
  have "getAllPages makeRequest baseUrl =
        Some (concat (map pages [1..<1 + N]) @ lastPage, map (pageUrl baseUrl) [1..<1 + N] @ [pageUrl baseUrl (1 + N)])"
    unfolding getAllPages_def
    using getAllPages_loop_full_pages [OF full', of "[]" "[]"]
          getAllPages_loop_short_page [of makeRequest baseUrl "1 + N" lastPage] last short
    by simp
  moreover have "distinct (map (pageUrl baseUrl) [1..<N + 2])"
    by (simp add: distinct_map inj_on_def pageUrl_inj del: upt_Suc)
  ultimately show ?thesis using len by (simp add: add.commute)
qed

theorem getAllPages_full_then_short_witness:
  "getAllPages (\<lambda>u. if u = pageUrl ''b'' 1 then Array (replicate 100 (0::nat)) else Array [1]) ''b''
     = Some (replicate 100 0 @ [1], [''b?page=1&per_page=100'', ''b?page=2&per_page=100''])"
proof -
  let ?req = "\<lambda>u. if u = pageUrl ''b'' 1 then Array (replicate 100 (0::nat)) else Array [1]"
  have u1: "pageUrl ''b'' 1 = ''b?page=1&per_page=100''"
    and u2: "pageUrl ''b'' 2 = ''b?page=2&per_page=100''"
    and u1': "pageUrl ''b'' (Suc 0) = ''b?page=1&per_page=100''"
    and u2': "pageUrl ''b'' (Suc (Suc 0)) = ''b?page=2&per_page=100''"
    by code_simp+
  have full: "\<forall>k\<in>{1..1}. ?req (pageUrl ''b'' k) = Array ((\<lambda>_. replicate 100 0) k)
                \<and> length ((\<lambda>_. replicate 100 (0::nat)) k) = 100"
    by simp
  have last: "?req (pageUrl ''b'' (1 + 1)) = Array [1]"
    by (simp add: u1 u2 u1' u2')
  have short: "length [1::nat] < 100"
    by simp
  from getAllPages_full_then_short [OF full last short] show ?thesis
    by (simp add: u1 u2 u1' u2')
qed

section \<open>The course filter and its tokens\<close>

lemma startsWith_iff: "startsWith s p \<longleftrightarrow> (\<exists>v. s = p @ v)"
  by (induction s p rule: startsWith.induct) auto

lemma includes_str_iff: "includes_str s p \<longleftrightarrow> (\<exists>u v. s = u @ p @ v)"
proof (induction s)
  case Nil
  then show ?case by auto
next
  case (Cons c cs)
  show ?case
  proof
    assume "includes_str (c # cs) p"
    then consider "startsWith (c # cs) p" | "includes_str cs p" by auto
    then show "\<exists>u v. c # cs = u @ p @ v"
    proof cases
      case 1
      then obtain v where "c # cs = p @ v" by (auto simp: startsWith_iff)
      then have "c # cs = [] @ p @ v" by simp
      then show ?thesis by blast
    next
      case 2
      then obtain u v where "cs = u @ p @ v" using Cons.IH by auto
      then have "c # cs = (c # u) @ p @ v" by simp
      then show ?thesis by blast
    qed
  next
    assume "\<exists>u v. c # cs = u @ p @ v"
    then obtain u v where uv: "c # cs = u @ p @ v" by auto
    show "includes_str (c # cs) p"
    proof (cases u)
      case Nil
      then have "startsWith (c # cs) p" using uv by (auto simp: startsWith_iff)
      then show ?thesis by simp
    next
      case (Cons d u')
      then have "cs = u' @ p @ v" using uv by simp
      then have "includes_str cs p" using Cons.IH by blast
      then show ?thesis by simp
    qed
  qed
qed

lemma includes_str_appendD:
  assumes "includes_str s (a @ b)"
  shows "includes_str s a" and "includes_str s b"
proof -
  from assms obtain u v where "s = u @ (a @ b) @ v" by (auto simp: includes_str_iff)
  then have "s = u @ a @ (b @ v)" and "s = (u @ a) @ b @ v" by simp_all
  then show "includes_str s a" and "includes_str s b"
    unfolding includes_str_iff by blast+
qed

lemma isCurrentSemesterCourse_needs_semester:
  assumes "isCurrentSemesterCourse settings c"
  shows "includes_str (toLowerCase (c_name c)) (toLowerCase (semester settings))
       \<or> includes_str (toLowerCase (c_course_code c)) (toLowerCase (semester settings))
       \<or> (\<exists>t. c_term c = Some t \<and> includes_str (toLowerCase (term_name t)) (toLowerCase (semester settings)))"
proof -
  let ?sem = "toLowerCase (semester settings)"
  let ?y = "year settings"
  from assms consider
      (a) "includes_str (toLowerCase (c_name c)) (?sem @ '' '' @ ?y)"
    | (b) "includes_str (toLowerCase (c_course_code c)) (?y @ ?sem)"
    | (c) "includes_str (toLowerCase (c_course_code c)) (?y @ ?sem @ ''c'')"
    | (d) "includes_str (toLowerCase (c_course_code c)) ?sem"
    | (e) "includes_str (case c_term c of None \<Rightarrow> [] | Some t \<Rightarrow> toLowerCase (term_name t)) (?y @ '' '' @ ?sem)"
    unfolding isCurrentSemesterCourse_def Let_def by blast
  then show ?thesis
  proof cases
    case a
    then show ?thesis using includes_str_appendD(1) by blast
  next
    case b
    then show ?thesis using includes_str_appendD(2) by blast
  next
    case c
    then have "includes_str (toLowerCase (c_course_code c)) (?sem @ ''c'')"
      using includes_str_appendD(2) by blast
    then show ?thesis using includes_str_appendD(1) by blast
  next
    case d
    then show ?thesis by blast
  next
    case e
    show ?thesis
    proof (cases "c_term c")
      case None
      with e have "includes_str [] (?y @ '' '' @ ?sem)" by simp
      then show ?thesis by simp
    next
      case (Some t)
      with e have "includes_str (toLowerCase (term_name t)) (?y @ ('' '' @ ?sem))" by simp
      then have "includes_str (toLowerCase (term_name t)) ('' '' @ ?sem)"
        using includes_str_appendD(2) by blast
      then have "includes_str (toLowerCase (term_name t)) ?sem"
        using includes_str_appendD(2) by blast
      then show ?thesis using Some by blast
    qed
  qed
qed

text \<open>
  Claim C2, as stated, fails: with the semester \<open>Spring\<close> and the year \<open>2025\<close> (the default
  settings) the course code \<open>2025SPc\<close> is lowercased to \<open>2025spc\<close>, which contains the year
  but not \<open>spring\<close>, so no clause of the filter matches.
\<close>

theorem isCurrentSemesterCourse_2025SPc_Spring_counterexample:
  "\<not> isCurrentSemesterCourse DEFAULT_SETTINGS
       \<lparr>c_id = 1, c_name = [], c_course_code = ''2025SPc'', c_term = None\<rparr>"
  by code_simp

lemma lower_2025SPc: "toLowerCase ''2025SPc'' = ''2025spc''" and lower_SP: "toLowerCase ''SP'' = ''sp''"
  by code_simp+

text \<open>
  Claim C2, amended. The filter compares with the configured semester string itself: the course
  code \<open>2025SPc\<close> is accepted when the configured semester is \<open>SP\<close> and the year is \<open>2025\<close>,
  whatever the course name and term are. A course whose lowercased name, code and term name
  contain neither the lowercased semester nor the year is rejected.
\<close>

theorem isCurrentSemesterCourse_tokens:
  "(semester settings = ''SP'' \<and> year settings = ''2025'' \<and> c_course_code c = ''2025SPc''
      \<longrightarrow> isCurrentSemesterCourse settings c)
   \<and> (\<not> includes_str (toLowerCase (c_name c)) (toLowerCase (semester settings))
      \<and> \<not> includes_str (toLowerCase (c_name c)) (year settings)
      \<and> \<not> includes_str (toLowerCase (c_course_code c)) (toLowerCase (semester settings))
      \<and> \<not> includes_str (toLowerCase (c_course_code c)) (year settings)
      \<and> (\<forall>t. c_term c = Some t \<longrightarrow>
            \<not> includes_str (toLowerCase (term_name t)) (toLowerCase (semester settings))
          \<and> \<not> includes_str (toLowerCase (term_name t)) (year settings))
      \<longrightarrow> \<not> isCurrentSemesterCourse settings c)"
proof (intro conjI impI)
  assume h: "semester settings = ''SP'' \<and> year settings = ''2025'' \<and> c_course_code c = ''2025SPc''"
  have "includes_str ''2025spc'' ''2025sp''" by simp
  then show "isCurrentSemesterCourse settings c"
    using h unfolding isCurrentSemesterCourse_def Let_def by (simp add: lower_2025SPc lower_SP)
next
  assume h: "\<not> includes_str (toLowerCase (c_name c)) (toLowerCase (semester settings))
      \<and> \<not> includes_str (toLowerCase (c_name c)) (year settings)
      \<and> \<not> includes_str (toLowerCase (c_course_code c)) (toLowerCase (semester settings))
      \<and> \<not> includes_str (toLowerCase (c_course_code c)) (year settings)
      \<and> (\<forall>t. c_term c = Some t \<longrightarrow>
            \<not> includes_str (toLowerCase (term_name t)) (toLowerCase (semester settings))
          \<and> \<not> includes_str (toLowerCase (term_name t)) (year settings))"
  show "\<not> isCurrentSemesterCourse settings c"
  proof
    assume "isCurrentSemesterCourse settings c"
    from isCurrentSemesterCourse_needs_semester [OF this] h show False by blast
  qed
qed

theorem isCurrentSemesterCourse_tokens_witness:
  "isCurrentSemesterCourse (DEFAULT_SETTINGS\<lparr>semester := ''SP''\<rparr>)
     \<lparr>c_id = 1, c_name = [], c_course_code = ''2025SPc'', c_term = None\<rparr>
   \<and> \<not> isCurrentSemesterCourse DEFAULT_SETTINGS
     \<lparr>c_id = 2, c_name = ''Intro to Art'', c_course_code = ''ART100'', c_term = Some \<lparr>term_name = ''Fall 2024''\<rparr>\<rparr>"
proof -
  let ?s = "DEFAULT_SETTINGS\<lparr>semester := ''SP''\<rparr>"
  let ?c = "\<lparr>c_id = 1, c_name = [], c_course_code = ''2025SPc'', c_term = None\<rparr>"
  let ?d = "\<lparr>c_id = 2, c_name = ''Intro to Art'', c_course_code = ''ART100'', c_term = Some \<lparr>term_name = ''Fall 2024''\<rparr>\<rparr>"
  have 1: "semester ?s = ''SP'' \<and> year ?s = ''2025'' \<and> c_course_code ?c = ''2025SPc''"
    by (simp add: DEFAULT_SETTINGS_def)
  have 2: "\<not> includes_str (toLowerCase (c_name ?d)) (toLowerCase (semester DEFAULT_SETTINGS))
      \<and> \<not> includes_str (toLowerCase (c_name ?d)) (year DEFAULT_SETTINGS)
      \<and> \<not> includes_str (toLowerCase (c_course_code ?d)) (toLowerCase (semester DEFAULT_SETTINGS))
      \<and> \<not> includes_str (toLowerCase (c_course_code ?d)) (year DEFAULT_SETTINGS)
      \<and> (\<forall>t. c_term ?d = Some t \<longrightarrow>
            \<not> includes_str (toLowerCase (term_name t)) (toLowerCase (semester DEFAULT_SETTINGS))
          \<and> \<not> includes_str (toLowerCase (term_name t)) (year DEFAULT_SETTINGS))"
    by (simp add: DEFAULT_SETTINGS_def toLowerCase_def lowerChar_def)
  from isCurrentSemesterCourse_tokens [of ?s ?c] 1
       isCurrentSemesterCourse_tokens [of DEFAULT_SETTINGS ?d] 2
  show ?thesis by blast
qed

section \<open>A failing course does not stop the fetch\<close>

lemma getAllPages_throws_midway:
  assumes full: "\<forall>k\<in>{1..n}. makeRequest (pageUrl baseUrl k) = Array (pages k) \<and> 100 \<le> length (pages k)"
    and fail: "makeRequest (pageUrl baseUrl (n + 1)) = Throws"
  shows "getAllPages makeRequest baseUrl =
           Some (concat (map pages [1..<n + 1]), map (pageUrl baseUrl) [1..<n + 2])"
proof -
  have full': "\<forall>k\<in>{1..<1 + n}. makeRequest (pageUrl baseUrl k) = Array (pages k) \<and> 100 \<le> length (pages k)"
    using full by auto
  have "getAllPages makeRequest baseUrl =
        Some (concat (map pages [1..<1 + n]), map (pageUrl baseUrl) [1..<1 + n] @ [pageUrl baseUrl (1 + n)])"
    unfolding getAllPages_def
    using getAllPages_loop_full_pages [OF full', of "[]" "[]"]
          getAllPages_loop_throws [of makeRequest baseUrl "1 + n"] fail
    by simp
  then show ?thesis by (simp add: add.commute)
qed

lemma fetch_courses_loop_all:
  assumes "\<forall>d\<in>set cs. \<exists>l. getAllPages req (assignmentsUrl settings d) = Some (items d, l)"
  shows "fetch_courses_loop settings req cs acc =
           Some (acc @ concat (map (\<lambda>d. map (annotate d) (items d)) cs))"
  using assms
proof (induction cs arbitrary: acc)
  case Nil
  then show ?case by simp
next
  case (Cons c cs)
  from Cons.prems obtain l where "getAllPages req (assignmentsUrl settings c) = Some (items c, l)"
    by auto
  moreover from Cons.prems
  have "\<forall>d\<in>set cs. \<exists>l. getAllPages req (assignmentsUrl settings d) = Some (items d, l)"
    by auto
  ultimately show ?case
    using Cons.IH by simp
qed

lemma fetch_courses_loop_append:
  assumes "\<forall>d\<in>set pre. \<exists>l. getAllPages req (assignmentsUrl settings d) = Some (items d, l)"
  shows "fetch_courses_loop settings req (pre @ post) acc =
           fetch_courses_loop settings req post (acc @ concat (map (\<lambda>d. map (annotate d) (items d)) pre))"
  using assms
proof (induction pre arbitrary: acc)
  case Nil
  then show ?case by simp
next
  case (Cons c cs)
  from Cons.prems obtain l where "getAllPages req (assignmentsUrl settings c) = Some (items c, l)"
    by auto
  moreover from Cons.prems
  have "\<forall>d\<in>set cs. \<exists>l. getAllPages req (assignmentsUrl settings d) = Some (items d, l)"
    by auto
  ultimately show ?case
    using Cons.IH by simp
qed

text \<open>
  Claim C3. When the assignment requests of a course \<open>c\<close> answer \<open>n\<close> pages and then throw,
  \<open>getAllPages\<close> returns the items of these \<open>n\<close> pages instead of failing, and the loop over the
  courses goes on: the assignments of the courses before and after \<open>c\<close> are all in the result,
  around the items \<open>c\<close> delivered before the failure.
\<close>

theorem fetch_continues_after_failure:
  assumes full: "\<forall>k\<in>{1..n}. req (pageUrl (assignmentsUrl settings c) k) = Array (pages k)
                   \<and> 100 \<le> length (pages k)"
    and fail: "req (pageUrl (assignmentsUrl settings c) (n + 1)) = Throws"
    and others: "\<forall>d\<in>set pre \<union> set post. \<exists>l. getAllPages req (assignmentsUrl settings d) = Some (items d, l)"
  shows "getAllPages req (assignmentsUrl settings c) =
           Some (concat (map pages [1..<n + 1]), map (pageUrl (assignmentsUrl settings c)) [1..<n + 2])
       \<and> fetch_courses_loop settings req (pre @ c # post) acc =
           Some (acc @ concat (map (\<lambda>d. map (annotate d) (items d)) pre)
                     @ map (annotate c) (concat (map pages [1..<n + 1]))
                     @ concat (map (\<lambda>d. map (annotate d) (items d)) post))"
proof -
  have partial: "getAllPages req (assignmentsUrl settings c) =
      Some (concat (map pages [1..<n + 1]), map (pageUrl (assignmentsUrl settings c)) [1..<n + 2])"
    using getAllPages_throws_midway [OF full fail] .
  have pre: "\<forall>d\<in>set pre. \<exists>l. getAllPages req (assignmentsUrl settings d) = Some (items d, l)"
    and post: "\<forall>d\<in>set post. \<exists>l. getAllPages req (assignmentsUrl settings d) = Some (items d, l)"
    using others by auto
  have "fetch_courses_loop settings req (pre @ c # post) acc =
        fetch_courses_loop settings req (c # post) (acc @ concat (map (\<lambda>d. map (annotate d) (items d)) pre))"
    using fetch_courses_loop_append [OF pre] .
  also have "\<dots> = fetch_courses_loop settings req post
        ((acc @ concat (map (\<lambda>d. map (annotate d) (items d)) pre))
           @ map (annotate c) (concat (map pages [1..<n + 1])))"
    using partial by simp
  also have "\<dots> = Some (((acc @ concat (map (\<lambda>d. map (annotate d) (items d)) pre))
           @ map (annotate c) (concat (map pages [1..<n + 1])))
           @ concat (map (\<lambda>d. map (annotate d) (items d)) post))"
    using fetch_courses_loop_all [OF post] .
  finally show ?thesis using partial by simp
qed

lemma toString_nat_examples:
  "toString_nat 1 = ''1''" "toString_nat (Suc 0) = ''1''" "toString_nat 2 = ''2''"
  "toString_nat (Suc (Suc 0)) = ''2''" "toString_nat 7 = ''7''" "toString_nat 8 = ''8''"
  by code_simp+

lemma example_urls:
  "pageUrl (assignmentsUrl example_settings example_course1) k =
     ''api/courses/7/assignments?include[]=submission&page='' @ toString_nat k @ ''&per_page=100''"
  "pageUrl (assignmentsUrl example_settings example_course2) k =
     ''api/courses/8/assignments?include[]=submission&page='' @ toString_nat k @ ''&per_page=100''"
  by (simp_all add: pageUrl_def assignmentsUrl_def example_settings_def DEFAULT_SETTINGS_def
      example_course1_def example_course2_def toString_nat_examples)

theorem fetch_continues_after_failure_witness:
  "fetch_courses_loop example_settings example_requests [example_course1, example_course2] [] =
     Some (map (annotate example_course1) (replicate 100 example_api_assignment)
           @ [annotate example_course2 example_api_assignment])"
proof -
  let ?items = "\<lambda>d::CanvasCourse. [example_api_assignment]"
  have full: "\<forall>k\<in>{1..1}. example_requests (pageUrl (assignmentsUrl example_settings example_course1) k)
                 = Array ((\<lambda>_. replicate 100 example_api_assignment) k)
               \<and> 100 \<le> length ((\<lambda>_. replicate 100 example_api_assignment) k)"
    by (simp add: example_urls toString_nat_examples example_requests_def)
  have fail: "example_requests (pageUrl (assignmentsUrl example_settings example_course1) (1 + 1)) = Throws"
    by (simp add: example_urls toString_nat_examples example_requests_def)
  have "getAllPages example_requests (assignmentsUrl example_settings example_course2)
          = Some ([example_api_assignment], [pageUrl (assignmentsUrl example_settings example_course2) 1])"
    unfolding getAllPages_def
    by (subst getAllPages_loop.simps) (simp add: example_urls toString_nat_examples example_requests_def)
  then have others: "\<forall>d\<in>set [] \<union> set [example_course2].
      \<exists>l. getAllPages example_requests (assignmentsUrl example_settings d) = Some (?items d, l)"
    by simp
  from fetch_continues_after_failure [OF full fail others, of "[]"]
  show ?thesis by (simp del: fetch_courses_loop.simps)
qed

section \<open>The fingerprint is injective in its four fields\<close>

lemma split_at_first:
  assumes "x \<notin> set xs" and "x \<notin> set ys" and "xs @ x # r = ys @ x # r'"
  shows "xs = ys \<and> r = r'"
  using assms
proof (induction xs arbitrary: ys)
  case Nil
  then show ?case by (cases ys) auto
next
  case (Cons a xs)
  then show ?case by (cases ys) auto
qed

subsection \<open>Printed numbers are told apart\<close>

text \<open>
  \<open>digitsToString\<close> is injective on digits without a trailing zero: the shape of the text
  (an exponent part, a decimal point, a leading zero) tells which rule printed it, and within
  each rule the digits and the position of the point can be read back. So two numbers are
  written alike by \<open>JSON_number\<close> only when they are equal, both zero, or both not finite.
\<close>

lemma hd_eqI: "xs = a # ys \<Longrightarrow> hd xs = a"
  by simp


lemma char_zero: "char_of (48 + (0::nat)) = CHR ''0''"
  by code_simp

lemma toString_nat_hd: "0 < s \<Longrightarrow> hd (toString_nat s) \<noteq> CHR ''0''"
proof (induction s rule: toString_nat.induct)
  case (1 n)
  show ?case
  proof (cases "n < 10")
    case True
    then have "toString_nat n = [char_of (48 + n)]"
      by (subst toString_nat.simps) simp
    moreover have "char_of (48 + n) \<noteq> CHR ''0''"
    proof
      assume "char_of (48 + n) = CHR ''0''"
      then have "char_of (48 + n) = char_of (48 + (0::nat))" by (simp only: char_zero)
      then have "n = 0" using digit_char_inj [of n 0] True by simp
      with "1.prems" show False by simp
    qed
    ultimately show ?thesis by simp
  next
    case False
    then have "toString_nat n = toString_nat (n div 10) @ [char_of (48 + n mod 10)]"
      by (subst toString_nat.simps) simp
    then have "hd (toString_nat n) = hd (toString_nat (n div 10))"
      using toString_nat_not_Nil [of "n div 10"] by simp
    moreover from False have "0 < n div 10" by simp
    ultimately show ?thesis using "1.IH" [OF False] by simp
  qed
qed

lemma toString_nat_last: "last (toString_nat s) = char_of (48 + s mod 10)"
  by (subst toString_nat.simps) simp

lemma toString_nat_last_nonzero: "\<not> 10 dvd s \<Longrightarrow> last (toString_nat s) \<noteq> CHR ''0''"
proof
  assume nd: "\<not> 10 dvd s" and "last (toString_nat s) = CHR ''0''"
  then have "char_of (48 + s mod 10) = char_of (48 + (0::nat))"
    by (simp only: toString_nat_last char_zero)
  then have "s mod 10 = 0"
    using digit_char_inj [of "s mod 10" 0] by simp
  with nd show False by (simp add: dvd_eq_mod_eq_0)
qed

lemma not_digits:
  "\<not> isDigit (CHR ''e'')" "\<not> isDigit (CHR ''.'')" "\<not> isDigit (CHR ''-'')" "\<not> isDigit (CHR ''+'')"
  "\<not> isDigit (CHR '','')" "\<not> isDigit (CHR ''$'')" "\<not> isDigit (CHR ''n'')" "isDigit (CHR ''0'')"
  by (simp_all add: isDigit_def)

lemma toString_nat_no:
  "CHR ''e'' \<notin> set (toString_nat s)" "CHR ''.'' \<notin> set (toString_nat s)" "CHR ''-'' \<notin> set (toString_nat s)"
  "CHR ''+'' \<notin> set (toString_nat s)" "CHR '','' \<notin> set (toString_nat s)" "CHR ''$'' \<notin> set (toString_nat s)"
  "CHR ''n'' \<notin> set (toString_nat s)"
  using toString_nat_digits not_digits by blast+

lemma toString_nat_length: "0 < length (toString_nat s)"
  using toString_nat_not_Nil by simp

lemma Number_toString_examples:
  "map Number_toString
     [Decimal False 1 2, Decimal False 75 1, Decimal True 1 (- 2), Decimal False 1 21, Decimal False 1 22,
      Decimal False 15 (- 6), Decimal False 123 2, Zero True, NaN, Infinite True]
   = [''10'', ''7.5'', ''-0.001'', ''100000000000000000000'', ''1e+21'', ''1.5e-7'', ''12.3'', ''0'', ''NaN'',
      ''-Infinity'']"
  "map JSON_number [Decimal False 75 1, Zero True, NaN, Infinite False, Infinite True]
   = [''7.5'', ''0'', ''null'', ''null'', ''null'']"
  by code_simp+

paragraph \<open>The five shapes of a printed number\<close>

lemma dts_integer:
  assumes "int (length (toString_nat s)) \<le> n" "n \<le> 21"
  shows "digitsToString s n = toString_nat s @ replicate (nat (n - int (length (toString_nat s)))) (CHR ''0'')"
  using assms by (simp add: digitsToString_def Let_def)

lemma dts_fraction:
  assumes "n < int (length (toString_nat s))" "0 < n" "n \<le> 21"
  shows "digitsToString s n = take (nat n) (toString_nat s) @ CHR ''.'' # drop (nat n) (toString_nat s)"
  using assms by (simp add: digitsToString_def Let_def)

lemma dts_small:
  assumes "- 6 < n" "n \<le> 0"
  shows "digitsToString s n = CHR ''0'' # CHR ''.'' # replicate (nat (- n)) (CHR ''0'') @ toString_nat s"
proof -
  have "0 < int (length (toString_nat s))" using toString_nat_length [of s] by simp
  with assms have "\<not> int (length (toString_nat s)) \<le> n" by linarith
  with assms show ?thesis by (simp add: digitsToString_def Let_def)
qed

lemma dts_exp1:
  assumes "21 < n \<or> n \<le> - 6" "length (toString_nat s) = 1"
  shows "digitsToString s n = toString_nat s @ exponentPart (n - 1)"
  using assms by (auto simp add: digitsToString_def Let_def)

lemma dts_exp:
  assumes "21 < n \<or> n \<le> - 6" "length (toString_nat s) \<noteq> 1"
  shows "digitsToString s n = hd (toString_nat s) # CHR ''.'' # tl (toString_nat s) @ exponentPart (n - 1)"
  using assms toString_nat_length [of s] by (auto simp add: digitsToString_def Let_def)

lemma exponentPart_no_dot: "CHR ''.'' \<notin> set (exponentPart e)"
  using toString_nat_no(2) by (simp add: exponentPart_def)

lemma set_tl_subset: "set (tl xs) \<subseteq> set xs"
  by (cases xs) auto

lemma dts_has_e:
  "CHR ''e'' \<in> set (digitsToString s n) \<longleftrightarrow> (21 < n \<or> n \<le> - 6)"
proof -
  let ?D = "toString_nat s"
  have no: "CHR ''e'' \<notin> set ?D" by (rule toString_nat_no)
  then have td: "CHR ''e'' \<notin> set (take m ?D)" "CHR ''e'' \<notin> set (drop m ?D)" for m
    using in_set_takeD in_set_dropD by fast+
  consider (i) "int (length ?D) \<le> n" "n \<le> 21" | (f) "n < int (length ?D)" "0 < n" "n \<le> 21"
    | (s) "- 6 < n" "n \<le> 0" | (e1) "21 < n \<or> n \<le> - 6" "length ?D = 1"
    | (e) "21 < n \<or> n \<le> - 6" "length ?D \<noteq> 1"
    by linarith
  then show ?thesis
  proof cases
    case i
    moreover have "0 < int (length ?D)" using toString_nat_length [of s] by simp
    ultimately have "\<not> (21 < n \<or> n \<le> - 6)" by linarith
    then show ?thesis using no by (simp add: dts_integer [OF i])
  next
    case f
    then have "\<not> (21 < n \<or> n \<le> - 6)" by linarith
    then show ?thesis using td by (simp add: dts_fraction [OF f])
  next
    case s
    then have "\<not> (21 < n \<or> n \<le> - 6)" by linarith
    then show ?thesis using no by (simp add: dts_small [OF s])
  next
    case e1
    then show ?thesis by (simp add: dts_exp1 [OF e1] exponentPart_def)
  next
    case e
    then show ?thesis by (simp add: dts_exp [OF e] exponentPart_def)
  qed
qed

lemma dts_hd_zero:
  assumes "0 < s"
  shows "hd (digitsToString s n) = CHR ''0'' \<longleftrightarrow> (- 6 < n \<and> n \<le> 0)"
proof -
  let ?D = "toString_nat s"
  have ne: "?D \<noteq> []" by (rule toString_nat_not_Nil)
  have h: "hd ?D \<noteq> CHR ''0''" using assms by (rule toString_nat_hd)
  consider (i) "int (length ?D) \<le> n" "n \<le> 21" | (f) "n < int (length ?D)" "0 < n" "n \<le> 21"
    | (s) "- 6 < n" "n \<le> 0" | (e1) "21 < n \<or> n \<le> - 6" "length ?D = 1"
    | (e) "21 < n \<or> n \<le> - 6" "length ?D \<noteq> 1"
    by linarith
  then show ?thesis
  proof cases
    case i
    moreover from i ne have "0 < n" by (cases ?D) auto
    ultimately show ?thesis using ne h by (simp add: dts_integer)
  next
    case f
    then have "take (nat n) ?D \<noteq> []" using ne by auto
    moreover have "hd (take (nat n) ?D) = hd ?D" using f by (cases ?D) (auto simp add: take_Cons')
    ultimately show ?thesis using f h by (simp add: dts_fraction)
  next
    case s
    then show ?thesis by (simp add: dts_small)
  next
    case e1
    then show ?thesis using ne h by (auto simp add: dts_exp1)
  next
    case e
    then show ?thesis using ne h by (auto simp add: dts_exp)
  qed
qed

lemma dts_has_dot:
  "CHR ''.'' \<in> set (digitsToString s n) \<longleftrightarrow>
     \<not> (int (length (toString_nat s)) \<le> n \<and> n \<le> 21) \<and> \<not> ((21 < n \<or> n \<le> - 6) \<and> length (toString_nat s) = 1)"
proof -
  let ?D = "toString_nat s"
  have no: "CHR ''.'' \<notin> set ?D" by (rule toString_nat_no)
  consider (i) "int (length ?D) \<le> n" "n \<le> 21" | (f) "n < int (length ?D)" "0 < n" "n \<le> 21"
    | (s) "- 6 < n" "n \<le> 0" | (e1) "21 < n \<or> n \<le> - 6" "length ?D = 1"
    | (e) "21 < n \<or> n \<le> - 6" "length ?D \<noteq> 1"
    by linarith
  then show ?thesis
  proof cases
    case i
    then show ?thesis using no by (simp add: dts_integer)
  next
    case f
    then show ?thesis by (simp add: dts_fraction)
  next
    case s
    moreover from s have "\<not> int (length ?D) \<le> n" using toString_nat_length [of s] by linarith
    ultimately show ?thesis by (simp add: dts_small)
  next
    case e1
    then show ?thesis using no exponentPart_no_dot by (auto simp add: dts_exp1)
  next
    case e
    then show ?thesis by (auto simp add: dts_exp)
  qed
qed

paragraph \<open>Each shape is injective\<close>

lemma append_replicate_inj:
  assumes "xs \<noteq> []" "ys \<noteq> []" "last xs \<noteq> z" "last ys \<noteq> z"
    and "xs @ replicate a z = ys @ replicate b z"
  shows "xs = ys \<and> a = b"
  using assms
proof (induction a arbitrary: b)
  case 0
  show ?case
  proof (cases b)
    case 0
    with "0.prems" show ?thesis by simp
  next
    case (Suc b')
    with "0.prems" have "xs = (ys @ replicate b' z) @ [z]"
      by (simp add: replicate_append_same)
    then have "last xs = z" by (simp only: last_snoc)
    with "0.prems" show ?thesis by simp
  qed
next
  case (Suc a)
  show ?case
  proof (cases b)
    case 0
    with Suc.prems have "ys = (xs @ replicate a z) @ [z]"
      by (simp add: replicate_append_same)
    then have "last ys = z" by (simp only: last_snoc)
    with Suc.prems show ?thesis by simp
  next
    case (Suc b')
    with Suc.prems have "(xs @ replicate a z) @ [z] = (ys @ replicate b' z) @ [z]"
      by (simp add: replicate_append_same)
    then have "xs @ replicate a z = ys @ replicate b' z" by (simp only: append1_eq_conv)
    with Suc.IH [of b'] Suc.prems Suc show ?thesis by simp
  qed
qed

lemma replicate_append_inj:
  assumes "xs \<noteq> []" "ys \<noteq> []" "hd xs \<noteq> z" "hd ys \<noteq> z"
    and "replicate a z @ xs = replicate b z @ ys"
  shows "a = b \<and> xs = ys"
  using assms
proof (induction a arbitrary: b)
  case 0
  show ?case
  proof (cases b)
    case 0
    with "0.prems" show ?thesis by simp
  next
    case (Suc b')
    with "0.prems" have "xs = z # (replicate b' z @ ys)" by simp
    then have "hd xs = z" by (rule hd_eqI)
    with "0.prems" show ?thesis by simp
  qed
next
  case (Suc a)
  show ?case
  proof (cases b)
    case 0
    with Suc.prems have "ys = z # (replicate a z @ xs)" by simp
    then have "hd ys = z" by (rule hd_eqI)
    with Suc.prems show ?thesis by simp
  next
    case (Suc b')
    with Suc.prems have "replicate a z @ xs = replicate b' z @ ys" by simp
    with Suc.IH [of b'] Suc.prems Suc show ?thesis by simp
  qed
qed

lemma exponentPart_inj:
  assumes "exponentPart e = exponentPart e'"
  shows "e = e'"
proof -
  from assms have sign: "(if 0 < e then CHR ''+'' else CHR ''-'') = (if 0 < e' then CHR ''+'' else CHR ''-'')"
    and "toString_nat (nat \<bar>e\<bar>) = toString_nat (nat \<bar>e'\<bar>)"
    by (simp_all add: exponentPart_def)
  then have "nat \<bar>e\<bar> = nat \<bar>e'\<bar>" using toString_nat_inj by blast
  then have abs: "\<bar>e\<bar> = \<bar>e'\<bar>" by simp
  from sign have "(0 < e) = (0 < e')" by (simp split: if_splits)
  with abs show ?thesis by linarith
qed

lemma dts_same_shape:
  assumes s: "0 < s" and s': "0 < s'" and eq: "digitsToString s n = digitsToString s' n'"
  shows "(int (length (toString_nat s)) \<le> n \<and> n \<le> 21) = (int (length (toString_nat s')) \<le> n' \<and> n' \<le> 21)"
    and "(21 < n \<or> n \<le> - 6) = (21 < n' \<or> n' \<le> - 6)"
    and "(- 6 < n \<and> n \<le> 0) = (- 6 < n' \<and> n' \<le> 0)"
    and "21 < n \<or> n \<le> - 6 \<Longrightarrow> (length (toString_nat s) = 1) = (length (toString_nat s') = 1)"
proof -
  let ?A = "int (length (toString_nat s)) \<le> n \<and> n \<le> 21"
  let ?A' = "int (length (toString_nat s')) \<le> n' \<and> n' \<le> 21"
  let ?X = "21 < n \<or> n \<le> - 6" and ?X' = "21 < n' \<or> n' \<le> - 6"
  let ?L = "length (toString_nat s) = 1" and ?L' = "length (toString_nat s') = 1"
  show E: "?X = ?X'"
    using dts_has_e [of s n] dts_has_e [of s' n'] eq by simp
  show "(- 6 < n \<and> n \<le> 0) = (- 6 < n' \<and> n' \<le> 0)"
    using dts_hd_zero [OF s, of n] dts_hd_zero [OF s', of n'] eq by simp
  have P: "(\<not> ?A \<and> \<not> (?X \<and> ?L)) = (\<not> ?A' \<and> \<not> (?X' \<and> ?L'))"
    using dts_has_dot [of s n] dts_has_dot [of s' n'] eq by simp
  have "0 < int (length (toString_nat s))" "0 < int (length (toString_nat s'))"
    using toString_nat_length by simp_all
  then have AX: "?A \<Longrightarrow> \<not> ?X" and AX': "?A' \<Longrightarrow> \<not> ?X'" by linarith+
  from E P AX AX' show "?A = ?A'" by blast
  from E P AX AX' show "?X \<Longrightarrow> ?L = ?L'" by blast
qed

lemma dts_integer_inj:
  assumes s: "\<not> 10 dvd s" and s': "\<not> 10 dvd s'"
    and i: "int (length (toString_nat s)) \<le> n" "n \<le> 21"
    and i': "int (length (toString_nat s')) \<le> n'" "n' \<le> 21"
    and eq: "digitsToString s n = digitsToString s' n'"
  shows "toString_nat s = toString_nat s' \<and> n = n'"
proof -
  let ?D = "toString_nat s" and ?D' = "toString_nat s'"
  from eq have "?D @ replicate (nat (n - int (length ?D))) (CHR ''0'')
              = ?D' @ replicate (nat (n' - int (length ?D'))) (CHR ''0'')"
    by (simp only: dts_integer [OF i] dts_integer [OF i'])
  from append_replicate_inj [OF toString_nat_not_Nil toString_nat_not_Nil
         toString_nat_last_nonzero [OF s] toString_nat_last_nonzero [OF s'] this]
  have D: "?D = ?D'" and r: "nat (n - int (length ?D)) = nat (n' - int (length ?D'))" by blast+
  from r D have "nat (n - int (length ?D)) = nat (n' - int (length ?D))" by simp
  moreover from i have "0 \<le> n - int (length ?D)" by simp
  moreover from i' D have "0 \<le> n' - int (length ?D)" by simp
  ultimately have "n = n'" by linarith
  with D show ?thesis by simp
qed

lemma dts_fraction_inj:
  assumes f: "n < int (length (toString_nat s))" "0 < n" "n \<le> 21"
    and f': "n' < int (length (toString_nat s'))" "0 < n'" "n' \<le> 21"
    and eq: "digitsToString s n = digitsToString s' n'"
  shows "toString_nat s = toString_nat s' \<and> n = n'"
proof -
  let ?D = "toString_nat s" and ?D' = "toString_nat s'"
  from eq have sp: "take (nat n) ?D @ CHR ''.'' # drop (nat n) ?D = take (nat n') ?D' @ CHR ''.'' # drop (nat n') ?D'"
    by (simp only: dts_fraction [OF f] dts_fraction [OF f'])
  have no: "CHR ''.'' \<notin> set (take (nat n) ?D)" "CHR ''.'' \<notin> set (take (nat n') ?D')"
    using toString_nat_no(2) in_set_takeD by fast+
  from split_at_first [OF no sp]
  have t: "take (nat n) ?D = take (nat n') ?D'" and d: "drop (nat n) ?D = drop (nat n') ?D'"
    by simp_all
  have "?D = take (nat n) ?D @ drop (nat n) ?D" by simp
  also have "\<dots> = take (nat n') ?D' @ drop (nat n') ?D'" by (simp only: t d)
  finally have D: "?D = ?D'" by simp
  from t have "length (take (nat n) ?D) = length (take (nat n') ?D')" by simp
  moreover from f have "length (take (nat n) ?D) = nat n" by simp
  moreover from f' have "length (take (nat n') ?D') = nat n'" by simp
  ultimately have "nat n = nat n'" by simp
  with f f' have "n = n'" by linarith
  with D show ?thesis by simp
qed

lemma dts_small_inj:
  assumes s: "0 < s" and s': "0 < s'"
    and z: "- 6 < n" "n \<le> 0" and z': "- 6 < n'" "n' \<le> 0"
    and eq: "digitsToString s n = digitsToString s' n'"
  shows "toString_nat s = toString_nat s' \<and> n = n'"
proof -
  let ?D = "toString_nat s" and ?D' = "toString_nat s'"
  from eq have "CHR ''0'' # CHR ''.'' # replicate (nat (- n)) (CHR ''0'') @ ?D
              = CHR ''0'' # CHR ''.'' # replicate (nat (- n')) (CHR ''0'') @ ?D'"
    by (simp only: dts_small [OF z] dts_small [OF z'])
  then have "replicate (nat (- n)) (CHR ''0'') @ ?D = replicate (nat (- n')) (CHR ''0'') @ ?D'"
    by (simp only: list.inject char.inject simp_thms)
  from replicate_append_inj [OF toString_nat_not_Nil toString_nat_not_Nil
         toString_nat_hd [OF s] toString_nat_hd [OF s'] this]
  have "nat (- n) = nat (- n')" and D: "?D = ?D'" by blast+
  with z z' have "n = n'" by linarith
  with D show ?thesis by simp
qed

lemma exponentPart_Cons: "exponentPart e = CHR ''e'' # tl (exponentPart e)"
  by (simp add: exponentPart_def)

lemma dts_exp1_inj:
  assumes e: "21 < n \<or> n \<le> - 6" "length (toString_nat s) = 1"
    and e': "21 < n' \<or> n' \<le> - 6" "length (toString_nat s') = 1"
    and eq: "digitsToString s n = digitsToString s' n'"
  shows "toString_nat s = toString_nat s' \<and> n = n'"
proof -
  let ?D = "toString_nat s" and ?D' = "toString_nat s'"
  from eq have "?D @ exponentPart (n - 1) = ?D' @ exponentPart (n' - 1)"
    by (simp only: dts_exp1 [OF e] dts_exp1 [OF e'])
  then have "?D @ CHR ''e'' # tl (exponentPart (n - 1)) = ?D' @ CHR ''e'' # tl (exponentPart (n' - 1))"
    using exponentPart_Cons [of "n - 1"] exponentPart_Cons [of "n' - 1"] by simp
  from split_at_first [OF toString_nat_no(1) toString_nat_no(1) this]
  have D: "?D = ?D'" and "tl (exponentPart (n - 1)) = tl (exponentPart (n' - 1))" by blast+
  then have "exponentPart (n - 1) = exponentPart (n' - 1)"
    using exponentPart_Cons [of "n - 1"] exponentPart_Cons [of "n' - 1"] by simp
  then have "n - 1 = n' - 1" by (rule exponentPart_inj)
  with D show ?thesis by simp
qed

lemma dts_exp_inj:
  assumes e: "21 < n \<or> n \<le> - 6" "length (toString_nat s) \<noteq> 1"
    and e': "21 < n' \<or> n' \<le> - 6" "length (toString_nat s') \<noteq> 1"
    and eq: "digitsToString s n = digitsToString s' n'"
  shows "toString_nat s = toString_nat s' \<and> n = n'"
proof -
  let ?D = "toString_nat s" and ?D' = "toString_nat s'"
  from eq have "hd ?D # CHR ''.'' # tl ?D @ exponentPart (n - 1) = hd ?D' # CHR ''.'' # tl ?D' @ exponentPart (n' - 1)"
    by (simp only: dts_exp [OF e] dts_exp [OF e'])
  then have h: "hd ?D = hd ?D'"
    and "tl ?D @ exponentPart (n - 1) = tl ?D' @ exponentPart (n' - 1)"
    by (simp_all only: list.inject)
  then have sp: "tl ?D @ CHR ''e'' # tl (exponentPart (n - 1)) = tl ?D' @ CHR ''e'' # tl (exponentPart (n' - 1))"
    using exponentPart_Cons [of "n - 1"] exponentPart_Cons [of "n' - 1"] by simp
  have no: "CHR ''e'' \<notin> set (tl ?D)" "CHR ''e'' \<notin> set (tl ?D')"
    using toString_nat_no(1) set_tl_subset by fast+
  from split_at_first [OF no sp]
  have t: "tl ?D = tl ?D'" and "tl (exponentPart (n - 1)) = tl (exponentPart (n' - 1))"
    by simp_all
  then have "exponentPart (n - 1) = exponentPart (n' - 1)"
    using exponentPart_Cons [of "n - 1"] exponentPart_Cons [of "n' - 1"] by simp
  then have "n - 1 = n' - 1" by (rule exponentPart_inj)
  moreover from h t have "?D = ?D'"
    using toString_nat_not_Nil [of s] toString_nat_not_Nil [of s'] by (simp add: list.expand)
  ultimately show ?thesis by simp
qed

lemma digitsToString_inj:
  assumes s: "0 < s" "\<not> 10 dvd s" and s': "0 < s'" "\<not> 10 dvd s'"
    and eq: "digitsToString s n = digitsToString s' n'"
  shows "s = s' \<and> n = n'"
proof -
  let ?D = "toString_nat s" and ?D' = "toString_nat s'"
  note shape = dts_same_shape [OF s(1) s'(1) eq]
  consider (i) "int (length ?D) \<le> n" "n \<le> 21" | (f) "n < int (length ?D)" "0 < n" "n \<le> 21"
    | (s) "- 6 < n" "n \<le> 0" | (e1) "21 < n \<or> n \<le> - 6" "length ?D = 1"
    | (e) "21 < n \<or> n \<le> - 6" "length ?D \<noteq> 1"
    by linarith
  then have "?D = ?D' \<and> n = n'"
  proof cases
    case i
    with shape(1) have "int (length ?D') \<le> n'" "n' \<le> 21" by simp_all
    from dts_integer_inj [OF s(2) s'(2) i this eq] show ?thesis .
  next
    case f
    then have "\<not> (int (length ?D) \<le> n \<and> n \<le> 21)" "\<not> (21 < n \<or> n \<le> - 6)" "\<not> (- 6 < n \<and> n \<le> 0)"
      by linarith+
    with shape(1,2,3) have "\<not> (int (length ?D') \<le> n' \<and> n' \<le> 21)" "\<not> (21 < n' \<or> n' \<le> - 6)" "\<not> (- 6 < n' \<and> n' \<le> 0)"
      by simp_all
    then have "n' < int (length ?D')" "0 < n'" "n' \<le> 21" by linarith+
    from dts_fraction_inj [OF f this eq] show ?thesis .
  next
    case s
    with shape(3) have "- 6 < n'" "n' \<le> 0" by simp_all
    from dts_small_inj [OF \<open>0 < s\<close> \<open>0 < s'\<close> s this eq] show ?thesis .
  next
    case e1
    with shape(2) shape(4) have "21 < n' \<or> n' \<le> - 6" "length ?D' = 1" by simp_all
    from dts_exp1_inj [OF e1 this eq] show ?thesis .
  next
    case e
    with shape(2) shape(4) have "21 < n' \<or> n' \<le> - 6" "length ?D' \<noteq> 1" by simp_all
    from dts_exp_inj [OF e this eq] show ?thesis .
  qed
  then show ?thesis using toString_nat_inj by blast
qed

paragraph \<open>Numbers in JSON\<close>

lemma exponentPart_chars:
  "c \<in> set (exponentPart e) \<Longrightarrow> isDigit c \<or> c = CHR ''e'' \<or> c = CHR ''+'' \<or> c = CHR ''-''"
  using toString_nat_digits by (auto simp add: exponentPart_def split: if_splits)

lemma digitsToString_chars:
  assumes "c \<in> set (digitsToString s n)"
  shows "isDigit c \<or> c = CHR ''.'' \<or> c = CHR ''e'' \<or> c = CHR ''+'' \<or> c = CHR ''-''"
proof -
  let ?D = "toString_nat s"
  have D: "x \<in> set ?D \<Longrightarrow> isDigit x" for x by (rule toString_nat_digits)
  have td: "x \<in> set (take m ?D) \<Longrightarrow> isDigit x" "x \<in> set (drop m ?D) \<Longrightarrow> isDigit x" for x m
    using D in_set_takeD in_set_dropD by fast+
  have hdtl: "isDigit (hd ?D)" "x \<in> set (tl ?D) \<Longrightarrow> isDigit x" for x
    using D toString_nat_not_Nil [of s] set_tl_subset [of ?D] by auto
  consider (i) "int (length ?D) \<le> n" "n \<le> 21" | (f) "n < int (length ?D)" "0 < n" "n \<le> 21"
    | (s) "- 6 < n" "n \<le> 0" | (e1) "21 < n \<or> n \<le> - 6" "length ?D = 1"
    | (e) "21 < n \<or> n \<le> - 6" "length ?D \<noteq> 1"
    by linarith
  then show ?thesis
  proof cases
    case i
    from assms have "c \<in> set ?D \<or> c = CHR ''0''"
      unfolding dts_integer [OF i] by auto
    then show ?thesis using D not_digits(8) by blast
  next
    case f
    from assms have "c \<in> set (take (nat n) ?D) \<or> c = CHR ''.'' \<or> c \<in> set (drop (nat n) ?D)"
      unfolding dts_fraction [OF f] by auto
    then show ?thesis using td by blast
  next
    case s
    from assms have "c = CHR ''0'' \<or> c = CHR ''.'' \<or> c \<in> set ?D"
      unfolding dts_small [OF s] by auto
    then show ?thesis using D not_digits(8) by blast
  next
    case e1
    from assms have "c \<in> set ?D \<or> c \<in> set (exponentPart (n - 1))"
      unfolding dts_exp1 [OF e1] by auto
    then show ?thesis using D exponentPart_chars by blast
  next
    case e
    from assms have "c = hd ?D \<or> c = CHR ''.'' \<or> c \<in> set (tl ?D) \<or> c \<in> set (exponentPart (n - 1))"
      unfolding dts_exp [OF e] by auto
    then show ?thesis using hdtl exponentPart_chars by blast
  qed
qed

lemma digitsToString_hd:
  "digitsToString s n \<noteq> [] \<and> isDigit (hd (digitsToString s n))"
proof -
  let ?D = "toString_nat s"
  have ne: "?D \<noteq> []" by (rule toString_nat_not_Nil)
  then have h: "isDigit (hd ?D)" using toString_nat_digits [of "hd ?D" s] by simp
  consider (i) "int (length ?D) \<le> n" "n \<le> 21" | (f) "n < int (length ?D)" "0 < n" "n \<le> 21"
    | (s) "- 6 < n" "n \<le> 0" | (e1) "21 < n \<or> n \<le> - 6" "length ?D = 1"
    | (e) "21 < n \<or> n \<le> - 6" "length ?D \<noteq> 1"
    by linarith
  then show ?thesis
  proof cases
    case i
    then show ?thesis using ne h by (simp add: dts_integer [OF i])
  next
    case f
    then have "take (nat n) ?D \<noteq> []" using ne by auto
    moreover have "hd (take (nat n) ?D) = hd ?D" using f by (cases ?D) (auto simp add: take_Cons')
    ultimately show ?thesis using h by (simp add: dts_fraction [OF f])
  next
    case s
    then show ?thesis using not_digits(8) by (simp add: dts_small [OF s])
  next
    case e1
    then show ?thesis using ne h by (simp add: dts_exp1 [OF e1])
  next
    case e
    then show ?thesis using h by (simp add: dts_exp [OF e])
  qed
qed

lemma digitsToString_not_zero:
  assumes "0 < s"
  shows "digitsToString s n \<noteq> ''0''"
proof
  assume z: "digitsToString s n = ''0''"
  then have "hd (digitsToString s n) = CHR ''0''" by simp
  then have small: "- 6 < n" "n \<le> 0" using dts_hd_zero [OF assms, of n] by simp_all
  from z show False unfolding dts_small [OF small] by simp
qed

lemma Number_toString_no_dollar: "CHR ''$'' \<notin> set (Number_toString x)"
proof (cases x)
  case (Decimal neg s n)
  then show ?thesis using digitsToString_chars [of "CHR ''$''" s n] not_digits(6) by auto
qed simp_all

lemma JSON_number_no_comma: "CHR '','' \<notin> set (JSON_number x)"
proof (cases x)
  case (Decimal neg s n)
  then show ?thesis using digitsToString_chars [of "CHR '',''" s n] not_digits(5)
    by (auto simp add: JSON_number_def)
qed (simp_all add: JSON_number_def)

lemma JSON_number_eq_iff:
  assumes "isNumber x" "isNumber y"
  shows "JSON_number x = JSON_number y \<longleftrightarrow> strictEquals x y \<or> (\<not> isFinite x \<and> \<not> isFinite y)"
proof -
  have dig: "digitsToString s n \<noteq> CHR ''-'' # r" "digitsToString s n \<noteq> CHR ''n'' # r" for s n r
    using digitsToString_hd [of s n] not_digits(3,7) by (metis list.sel(1))+
  have null: "JSON_number (Decimal neg s n) \<noteq> ''null''" for neg s n
    using dig(2) [of s n "''ull''"] by (simp add: JSON_number_def)
  have zero: "0 < s \<Longrightarrow> JSON_number (Decimal neg s n) \<noteq> ''0''" for neg s n
    using digitsToString_not_zero [of s n] by (simp add: JSON_number_def)
  have dec: "JSON_number (Decimal neg s n) = JSON_number (Decimal neg' s' n') \<longleftrightarrow> neg = neg' \<and> s = s' \<and> n = n'"
    if "0 < s" "\<not> 10 dvd s" "0 < s'" "\<not> 10 dvd s'" for neg s n neg' s' n'
  proof
    assume eq: "JSON_number (Decimal neg s n) = JSON_number (Decimal neg' s' n')"
    show "neg = neg' \<and> s = s' \<and> n = n'"
    proof (cases neg; cases neg')
      assume "neg" "neg'"
      with eq have "digitsToString s n = digitsToString s' n'" by (simp add: JSON_number_def)
      with that \<open>neg\<close> \<open>neg'\<close> show ?thesis using digitsToString_inj by blast
    next
      assume "neg" "\<not> neg'"
      with eq dig(1) [of s' n' "digitsToString s n"] show ?thesis by (simp add: JSON_number_def)
    next
      assume "\<not> neg" "neg'"
      with eq dig(1) [of s n "digitsToString s' n'"] show ?thesis by (simp add: JSON_number_def)
    next
      assume "\<not> neg" "\<not> neg'"
      with eq have "digitsToString s n = digitsToString s' n'" by (simp add: JSON_number_def)
      with that \<open>\<not> neg\<close> \<open>\<not> neg'\<close> show ?thesis using digitsToString_inj by blast
    qed
  qed simp
  have js: "JSON_number NaN = ''null''" "JSON_number (Infinite b) = ''null''" "JSON_number (Zero b) = ''0''" for b
    by (simp_all add: JSON_number_def)
  show ?thesis
  proof (cases x)
    case x: NaN
    show ?thesis
    proof (cases y)
      case (Decimal neg' s' n')
      with x show ?thesis using null [of neg' s' n'] by (simp add: js)
    qed (simp_all add: x js)
  next
    case x: (Infinite b)
    show ?thesis
    proof (cases y)
      case (Decimal neg' s' n')
      with x show ?thesis using null [of neg' s' n'] by (simp add: js)
    qed (simp_all add: x js)
  next
    case x: (Zero b)
    show ?thesis
    proof (cases y)
      case (Decimal neg' s' n')
      with x assms show ?thesis using zero [of s' neg' n'] by (simp add: js)
    qed (simp_all add: x js)
  next
    case x: (Decimal neg s n)
    show ?thesis
    proof (cases y)
      case NaN
      with x show ?thesis using null [of neg s n] by (simp add: js)
    next
      case (Infinite b)
      with x show ?thesis using null [of neg s n] by (simp add: js)
    next
      case (Zero b)
      with x assms show ?thesis using zero [of s neg n] by (simp add: js)
    next
      case (Decimal neg' s' n')
      with x assms show ?thesis using dec [of s s' neg n neg' n'] by simp
    qed
  qed
qed

subsection \<open>Quoted strings are self-delimiting\<close>

lemma hexValue_hexDigit: "k < 16 \<Longrightarrow> hexValue (hexDigit k) = k"
  by (simp add: hexValue_def hexDigit_def)

lemma unquote_control:
  assumes "(of_char c :: nat) < 32"
  shows "char_of (hexValue (hexDigit (of_char c div 16)) * 16 + hexValue (hexDigit (of_char c mod 16))) = c"
proof -
  let ?n = "of_char c :: nat"
  have "?n div 16 < 16" using assms by simp
  then have "hexValue (hexDigit (?n div 16)) * 16 + hexValue (hexDigit (?n mod 16)) = ?n"
    by (simp add: hexValue_hexDigit)
  then show ?thesis by simp
qed

lemma unquote_plain: "c \<noteq> CHR 0x5C \<Longrightarrow> unquoteJSONChar (c # r) = Some (c, r)"
  by (cases r) simp_all

lemma unquote_quote: "unquoteJSONChar (quoteJSONChar c @ r) = Some (c, r)"
proof -
  consider (b) "c = CHR 0x08" | (t) "c = CHR 0x09" | (n) "c = CHR 0x0A" | (f) "c = CHR 0x0C"
    | (r) "c = CHR 0x0D" | (q) "c = CHR 0x22" | (s) "c = CHR 0x5C"
    | (other) "c \<noteq> CHR 0x08" "c \<noteq> CHR 0x09" "c \<noteq> CHR 0x0A" "c \<noteq> CHR 0x0C"
        "c \<noteq> CHR 0x0D" "c \<noteq> CHR 0x22" "c \<noteq> CHR 0x5C"
    by blast
  then show ?thesis
  proof cases
    case b then show ?thesis by (simp add: quoteJSONChar_def)
  next
    case t then show ?thesis by (simp add: quoteJSONChar_def)
  next
    case n then show ?thesis by (simp add: quoteJSONChar_def)
  next
    case f then show ?thesis by (simp add: quoteJSONChar_def)
  next
    case r then show ?thesis by (simp add: quoteJSONChar_def)
  next
    case q then show ?thesis by (simp add: quoteJSONChar_def)
  next
    case s then show ?thesis by (simp add: quoteJSONChar_def)
  next
    case other
    show ?thesis
    proof (cases "(of_char c :: nat) < 32")
      case True
      with other have "quoteJSONChar c =
          [CHR 0x5C, CHR ''u'', CHR ''0'', CHR ''0'', hexDigit (of_char c div 16), hexDigit (of_char c mod 16)]"
        by (simp add: quoteJSONChar_def)
      then show ?thesis using unquote_control [OF True] by simp
    next
      case False
      with other have "quoteJSONChar c = [c]"
        by (simp add: quoteJSONChar_def)
      then show ?thesis using other unquote_plain by simp
    qed
  qed
qed

lemma quoteJSONChar_shape:
  "(quoteJSONChar c = [c] \<and> c \<noteq> CHR 0x22) \<or> (\<exists>t. quoteJSONChar c = CHR 0x5C # t)"
  by (simp add: quoteJSONChar_def)

lemma quoteJSONChar_not_quote: "quoteJSONChar c @ r \<noteq> CHR 0x22 # r'"
  using quoteJSONChar_shape [of c] by auto

lemma quoted_body_inj:
  "concat (map quoteJSONChar s) @ CHR 0x22 # r = concat (map quoteJSONChar s') @ CHR 0x22 # r'
     \<Longrightarrow> s = s' \<and> r = r'"
proof (induction s arbitrary: s')
  case Nil
  show ?case
  proof (cases s')
    case Nil
    with Nil.prems show ?thesis by simp
  next
    case (Cons c' t)
    with Nil.prems
    have "quoteJSONChar c' @ (concat (map quoteJSONChar t) @ CHR 0x22 # r') = CHR 0x22 # r"
      by simp
    then show ?thesis using quoteJSONChar_not_quote by blast
  qed
next
  case (Cons c s)
  show ?case
  proof (cases s')
    case Nil
    with Cons.prems
    have "quoteJSONChar c @ (concat (map quoteJSONChar s) @ CHR 0x22 # r) = CHR 0x22 # r'"
      by simp
    then show ?thesis using quoteJSONChar_not_quote by blast
  next
    case (Cons c' t)
    with Cons.prems
    have eq: "quoteJSONChar c @ (concat (map quoteJSONChar s) @ CHR 0x22 # r)
            = quoteJSONChar c' @ (concat (map quoteJSONChar t) @ CHR 0x22 # r')"
      by simp
    then have "unquoteJSONChar (quoteJSONChar c @ (concat (map quoteJSONChar s) @ CHR 0x22 # r))
            = unquoteJSONChar (quoteJSONChar c' @ (concat (map quoteJSONChar t) @ CHR 0x22 # r'))"
      by (rule arg_cong)
    then have "c = c'" and "concat (map quoteJSONChar s) @ CHR 0x22 # r = concat (map quoteJSONChar t) @ CHR 0x22 # r'"
      unfolding unquote_quote by simp_all
    with Cons.IH [of t] Cons show ?thesis by simp
  qed
qed

lemma quoteJSONString_inj:
  "quoteJSONString s @ r = quoteJSONString s' @ r' \<Longrightarrow> s = s' \<and> r = r'"
  using quoted_body_inj [of s r s' r'] by (simp add: quoteJSONString_def)

lemma getAssignmentHash_inj:
  assumes "getAssignmentHash a = getAssignmentHash b"
  shows "name a = name b \<and> description a = description b \<and> html_url a = html_url b
       \<and> JSON_number (points_possible a) = JSON_number (points_possible b)"
proof -
  let ?r3 = "\<lambda>x. [CHR 0x22] @ ''html_url'' @ [CHR 0x22, CHR '':''] @ quoteJSONString (html_url x) @ [CHR ''}'']"
  let ?r2 = "\<lambda>x. [CHR '','', CHR 0x22] @ ''points_possible'' @ [CHR 0x22, CHR '':'']
               @ (JSON_number (points_possible x) @ CHR '','' # ?r3 x)"
  let ?r1 = "\<lambda>x. [CHR '','', CHR 0x22] @ ''description'' @ [CHR 0x22, CHR '':'']
               @ (quoteJSONString (description x) @ ?r2 x)"
  from assms have "quoteJSONString (name a) @ ?r1 a = quoteJSONString (name b) @ ?r1 b"
    by (simp add: getAssignmentHash_def)
  then have n: "name a = name b" and 1: "?r1 a = ?r1 b"
    using quoteJSONString_inj by blast+
  from 1 have "quoteJSONString (description a) @ ?r2 a = quoteJSONString (description b) @ ?r2 b"
    by simp
  then have d: "description a = description b" and 2: "?r2 a = ?r2 b"
    using quoteJSONString_inj by blast+
  from 2 have "JSON_number (points_possible a) @ CHR '','' # ?r3 a
             = JSON_number (points_possible b) @ CHR '','' # ?r3 b"
    by simp
  from split_at_first [OF JSON_number_no_comma JSON_number_no_comma this]
  have p: "JSON_number (points_possible a) = JSON_number (points_possible b)" and 3: "?r3 a = ?r3 b"
    by simp_all
  from 3 have "quoteJSONString (html_url a) @ [CHR ''}''] = quoteJSONString (html_url b) @ [CHR ''}'']"
    by simp
  then have u: "html_url a = html_url b"
    using quoteJSONString_inj by blast
  from n d p u show ?thesis by blast
qed

lemma getAssignmentHash_eq_JSON:
  "getAssignmentHash a = getAssignmentHash b \<longleftrightarrow>
     name a = name b \<and> description a = description b \<and> html_url a = html_url b
     \<and> JSON_number (points_possible a) = JSON_number (points_possible b)"
proof
  assume "getAssignmentHash a = getAssignmentHash b"
  then show "name a = name b \<and> description a = description b \<and> html_url a = html_url b
     \<and> JSON_number (points_possible a) = JSON_number (points_possible b)"
    by (rule getAssignmentHash_inj)
next
  assume "name a = name b \<and> description a = description b \<and> html_url a = html_url b
     \<and> JSON_number (points_possible a) = JSON_number (points_possible b)"
  then show "getAssignmentHash a = getAssignmentHash b"
    by (simp add: getAssignmentHash_def)
qed

text \<open>
  Claim C4, as stated, fails: \<^verbatim>\<open>JSON.stringify\<close> writes \<^verbatim>\<open>null\<close> for every number that is not
  finite, so two assignments that differ only in \<open>points_possible\<close>, \<^verbatim>\<open>Infinity\<close> in one and
  \<^verbatim>\<open>-Infinity\<close> in the other, have the same fingerprint. Both are values of the type
  \<^verbatim>\<open>number\<close>, and a response can hold them: \<^verbatim>\<open>JSON.parse\<close> reads \<^verbatim>\<open>1e999\<close> as \<^verbatim>\<open>Infinity\<close>.
\<close>

theorem getAssignmentHash_infinities_counterexample:
  "getAssignmentHash example_assignment_infinity = getAssignmentHash example_assignment_minus_infinity
   \<and> points_possible example_assignment_infinity = Infinite False
   \<and> points_possible example_assignment_minus_infinity = Infinite True
   \<and> \<not> strictEquals (points_possible example_assignment_infinity)
          (points_possible example_assignment_minus_infinity)"
  by code_simp

text \<open>
  Claim C4, amended. Two assignments have the same fingerprint exactly when they agree on
  \<open>name\<close>, \<open>description\<close> and \<open>html_url\<close> and their \<open>points_possible\<close> are written alike in JSON;
  for numbers this means that they are equal (\<^verbatim>\<open>===\<close>, the two zeros being equal), or that
  neither is finite. So for finite \<open>points_possible\<close> the fingerprints are equal exactly when
  the four fields agree. Changing only \<open>due_at\<close> leaves the fingerprint as it is.
\<close>

theorem getAssignmentHash_eq_iff:
  "(getAssignmentHash a = getAssignmentHash b \<longleftrightarrow>
      name a = name b \<and> description a = description b \<and> html_url a = html_url b
      \<and> JSON_number (points_possible a) = JSON_number (points_possible b))
   \<and> (isNumber (points_possible a) \<and> isNumber (points_possible b) \<longrightarrow>
        (getAssignmentHash a = getAssignmentHash b \<longleftrightarrow>
           name a = name b \<and> description a = description b \<and> html_url a = html_url b
           \<and> (strictEquals (points_possible a) (points_possible b)
              \<or> \<not> isFinite (points_possible a) \<and> \<not> isFinite (points_possible b))))
   \<and> (isNumber (points_possible a) \<and> isNumber (points_possible b)
        \<and> isFinite (points_possible a) \<and> isFinite (points_possible b) \<longrightarrow>
        (getAssignmentHash a = getAssignmentHash b \<longleftrightarrow>
           name a = name b \<and> description a = description b
           \<and> strictEquals (points_possible a) (points_possible b) \<and> html_url a = html_url b))
   \<and> getAssignmentHash (a\<lparr>due_at := d\<rparr>) = getAssignmentHash a"
proof -
  have 1: "getAssignmentHash a = getAssignmentHash b \<longleftrightarrow>
      name a = name b \<and> description a = description b \<and> html_url a = html_url b
      \<and> JSON_number (points_possible a) = JSON_number (points_possible b)"
    by (rule getAssignmentHash_eq_JSON)
  have 2: "isNumber (points_possible a) \<and> isNumber (points_possible b) \<longrightarrow>
        (getAssignmentHash a = getAssignmentHash b \<longleftrightarrow>
           name a = name b \<and> description a = description b \<and> html_url a = html_url b
           \<and> (strictEquals (points_possible a) (points_possible b)
              \<or> \<not> isFinite (points_possible a) \<and> \<not> isFinite (points_possible b)))"
    using JSON_number_eq_iff [of "points_possible a" "points_possible b"]
    by (simp only: 1) blast
  have 3: "isNumber (points_possible a) \<and> isNumber (points_possible b)
        \<and> isFinite (points_possible a) \<and> isFinite (points_possible b) \<longrightarrow>
        (getAssignmentHash a = getAssignmentHash b \<longleftrightarrow>
           name a = name b \<and> description a = description b
           \<and> strictEquals (points_possible a) (points_possible b) \<and> html_url a = html_url b)"
    using 2 by blast
  have 4: "getAssignmentHash (a\<lparr>due_at := d\<rparr>) = getAssignmentHash a"
    by (simp add: getAssignmentHash_def)
  from 1 2 3 4 show ?thesis by (intro conjI)
qed

theorem getAssignmentHash_eq_iff_witness:
  "getAssignmentHash example_assignment = getAssignmentHash example_assignment_due
   \<and> getAssignmentHash example_assignment \<noteq> getAssignmentHash example_assignment_fraction
   \<and> getAssignmentHash example_assignment \<noteq> getAssignmentHash (example_assignment\<lparr>name := ''Essay 2''\<rparr>)"
proof (intro conjI)
  have num: "isNumber (points_possible example_assignment)" "isFinite (points_possible example_assignment)"
    "isNumber (points_possible example_assignment_due)" "isFinite (points_possible example_assignment_due)"
    "isNumber (points_possible example_assignment_fraction)" "isFinite (points_possible example_assignment_fraction)"
    by code_simp+
  have same: "name example_assignment = name example_assignment_due
      \<and> description example_assignment = description example_assignment_due
      \<and> strictEquals (points_possible example_assignment) (points_possible example_assignment_due)
      \<and> html_url example_assignment = html_url example_assignment_due"
    by code_simp
  from getAssignmentHash_eq_iff [of example_assignment example_assignment_due] num same
  show "getAssignmentHash example_assignment = getAssignmentHash example_assignment_due"
    by blast
  have differ: "\<not> strictEquals (points_possible example_assignment) (points_possible example_assignment_fraction)"
    by code_simp
  from getAssignmentHash_eq_iff [of example_assignment example_assignment_fraction] num differ
  show "getAssignmentHash example_assignment \<noteq> getAssignmentHash example_assignment_fraction"
    by blast
  have "name example_assignment \<noteq> name (example_assignment\<lparr>name := ''Essay 2''\<rparr>)"
    by (simp add: example_assignment_def)
  with getAssignmentHash_eq_iff [of example_assignment "example_assignment\<lparr>name := ''Essay 2''\<rparr>"]
  show "getAssignmentHash example_assignment \<noteq> getAssignmentHash (example_assignment\<lparr>name := ''Essay 2''\<rparr>)"
    by blast
qed

section \<open>The regular expressions against the specification's words\<close>

lemma bt_Ones:
  "bt (map One ps @ k) s =
     (if list_all2 (\<lambda>p c. p c) ps (take (length ps) s) then bt k (drop (length ps) s) else None)"
proof (induction ps arbitrary: s)
  case Nil
  then show ?case by simp
next
  case (Cons p ps)
  then show ?case by (cases s) simp_all
qed

lemma bt_Ones_only:
  "bt (map One ps) s =
     (if list_all2 (\<lambda>p c. p c) ps (take (length ps) s) then Some ([], drop (length ps) s) else None)"
  using bt_Ones [of ps "[]" s] by simp

lemma replace_global_fixed:
  assumes "\<And>s. bt rx s = (if P (take (Suc n) s) then Some ([], drop (Suc n) s) else None)"
  shows "replace_global rx [] pre s = strip_every P n s"
proof (induction s arbitrary: pre rule: length_induct)
  case (1 s)
  show ?case
  proof (cases s)
    case Nil
    then show ?thesis
      by (subst replace_global.simps) (simp add: assms split: option.split)
  next
    case (Cons c cs)
    show ?thesis
    proof (cases "P (take (Suc n) (c # cs))")
      case True
      then have "bt rx (c # cs) = Some ([], drop n cs)"
        by (simp add: assms)
      moreover have shorter: "length (drop n cs) < length (c # cs)" by simp
      ultimately have "replace_global rx [] pre (c # cs)
          = replace_global rx [] (pre @ take (length (c # cs) - length (drop n cs)) (c # cs)) (drop n cs)"
        by (subst replace_global.simps) (simp del: length_drop)
      moreover have "length (drop n cs) < length s" using Cons by simp
      ultimately show ?thesis using True Cons 1 by simp
    next
      case False
      then have "bt rx (c # cs) = None"
        by (simp add: assms)
      then have "replace_global rx [] pre (c # cs) = c # replace_global rx [] (pre @ [c]) cs"
        by (subst replace_global.simps) simp
      moreover have "length cs < length s" using Cons by simp
      ultimately show ?thesis using False Cons 1 by simp
    qed
  qed
qed

lemma replace_first_fixed:
  assumes "\<And>s. bt rx s = (if P (take (Suc n) s) then Some ([], drop (Suc n) s) else None)"
  shows "replace_first rx [] s = strip_first P n s"
proof (induction s)
  case Nil
  then show ?case by (simp add: replace_first_def assms)
next
  case (Cons c cs)
  show ?case
  proof (cases "P (take (Suc n) (c # cs))")
    case True
    then have "bt rx (c # cs) = Some ([], drop n cs)" by (simp add: assms)
    then have "exec rx (c # cs) = Some ([], [], drop n cs)" by simp
    then have "replace_first rx [] (c # cs) = drop n cs" by (simp add: replace_first_def)
    with True show ?thesis by simp
  next
    case False
    then have "bt rx (c # cs) = None" by (simp add: assms)
    then have "exec rx (c # cs) = map_option (\<lambda>(b, ms, r). (c # b, ms, r)) (exec rx cs)" by simp
    then have "replace_first rx [] (c # cs) = c # replace_first rx [] cs"
      by (auto simp: replace_first_def split: option.splits)
    with False Cons show ?thesis by simp
  qed
qed

lemma list8:
  assumes "length t = 8"
  obtains a b c d e f g h where "t = [a, b, c, d, e, f, g, h]"
proof -
  from assms have "length t = Suc (Suc (Suc (Suc (Suc (Suc (Suc (Suc 0)))))))" by simp
  then show ?thesis using that by (auto simp: length_Suc_conv)
qed

lemma list10:
  assumes "length t = 10"
  obtains a b c d e f g h i j where "t = [a, b, c, d, e, f, g, h, i, j]"
proof -
  from assms have "length t = Suc (Suc (Suc (Suc (Suc (Suc (Suc (Suc (Suc (Suc 0)))))))))" by simp
  then show ?thesis using that by (auto simp: length_Suc_conv)
qed

lemma rx_courseToken_Ones:
  "rx_courseToken = map One [\<lambda>c. c = CHR ''-'', isUpper, isUpper, isUpper, isDigit, isDigit, isDigit, \<lambda>c. c = CHR ''-'']"
  by (simp add: rx_courseToken_def numeral_eq_Suc)

lemma rx_date_Ones:
  "rx_date = map One [isDigit, isDigit, isDigit, isDigit, \<lambda>c. c = CHR ''-'', isDigit, isDigit,
                      \<lambda>c. c = CHR ''-'', isDigit, isDigit]"
  by (simp add: rx_date_def numeral_eq_Suc)

lemma course_token_all2:
  "list_all2 (\<lambda>p c. p c)
     [\<lambda>c. c = CHR ''-'', isUpper, isUpper, isUpper, isDigit, isDigit, isDigit, \<lambda>c. c = CHR ''-''] t
   \<longleftrightarrow> is_course_token t"
proof (cases "length t = 8")
  case True
  then obtain a b c d e f g h where "t = [a, b, c, d, e, f, g, h]" by (rule list8)
  then show ?thesis by (simp add: is_course_token_def numeral_eq_Suc)
next
  case False
  then show ?thesis by (auto simp: is_course_token_def dest: list_all2_lengthD)
qed

lemma date_all2:
  "list_all2 (\<lambda>p c. p c)
     [isDigit, isDigit, isDigit, isDigit, \<lambda>c. c = CHR ''-'', isDigit, isDigit,
      \<lambda>c. c = CHR ''-'', isDigit, isDigit] t
   \<longleftrightarrow> is_date t"
proof (cases "length t = 10")
  case True
  then obtain a b c d e f g h i j where "t = [a, b, c, d, e, f, g, h, i, j]" by (rule list10)
  then show ?thesis by (simp add: is_date_def numeral_eq_Suc)
next
  case False
  then show ?thesis by (auto simp: is_date_def dest: list_all2_lengthD)
qed

lemma bt_rx_courseToken:
  "bt rx_courseToken s = (if is_course_token (take (Suc 7) s) then Some ([], drop (Suc 7) s) else None)"
proof -
  let ?ps = "[\<lambda>c. c = CHR ''-'', isUpper, isUpper, isUpper, isDigit, isDigit, isDigit, \<lambda>c. c = CHR ''-'']"
  have len: "length ?ps = Suc 7" by simp
  show ?thesis
    using bt_Ones_only [of ?ps s] unfolding len course_token_all2 rx_courseToken_Ones .
qed

lemma bt_rx_date:
  "bt rx_date s = (if is_date (take (Suc 9) s) then Some ([], drop (Suc 9) s) else None)"
proof -
  let ?ps = "[isDigit, isDigit, isDigit, isDigit, \<lambda>c. c = CHR ''-'', isDigit, isDigit,
              \<lambda>c. c = CHR ''-'', isDigit, isDigit]"
  have len: "length ?ps = Suc 9" by simp
  show ?thesis
    using bt_Ones_only [of ?ps s] unfolding len date_all2 rx_date_Ones .
qed

lemma bt_tag_body:
  "bt [LazyStar (\<lambda>c. \<not> isLineTerminator c), One (\<lambda>c. c = CHR '']'')] cs = map_option (Pair []) (tag_rest cs)"
  by (induction cs) auto

lemma bt_rx_tag_Cons:
  "bt rx_tag (c # cs) = (if c = CHR ''['' then map_option (Pair []) (tag_rest cs) else None)"
  unfolding rx_tag_def using bt_tag_body by simp

lemma bt_rx_tag_Nil: "bt rx_tag [] = None"
  by (simp add: rx_tag_def)

lemma replace_global_tags: "replace_global rx_tag [] pre s = strip_tags s"
proof (induction s arbitrary: pre rule: strip_tags.induct)
  case 1
  show ?case by (subst replace_global.simps) (simp add: bt_rx_tag_Nil)
next
  case (2 c cs)
  show ?case
  proof (cases "c = CHR ''[''")
    case True
    show ?thesis
    proof (cases "tag_rest cs")
      case None
      with True have "bt rx_tag (c # cs) = None" by (simp add: bt_rx_tag_Cons)
      then have "replace_global rx_tag [] pre (c # cs) = c # replace_global rx_tag [] (pre @ [c]) cs"
        by (subst replace_global.simps) simp
      with True None 2 show ?thesis by simp
    next
      case (Some r)
      with True have "bt rx_tag (c # cs) = Some ([], r)" by (simp add: bt_rx_tag_Cons)
      moreover have "length r < length (c # cs)" using tag_rest_shorter [OF Some] by simp
      ultimately have "replace_global rx_tag [] pre (c # cs)
          = replace_global rx_tag [] (pre @ take (length (c # cs) - length r) (c # cs)) r"
        by (subst replace_global.simps) simp
      with True Some 2 show ?thesis by simp
    qed
  next
    case False
    then have "bt rx_tag (c # cs) = None" by (simp add: bt_rx_tag_Cons)
    then have "replace_global rx_tag [] pre (c # cs) = c # replace_global rx_tag [] (pre @ [c]) cs"
      by (subst replace_global.simps) simp
    with False 2 show ?thesis by simp
  qed
qed

lemma bt_rx_illegal:
  "bt rx_illegal [] = None"
  "bt rx_illegal (c # cs) = (if c \<in> set illegalChars then Some ([], cs) else None)"
  by (simp_all add: rx_illegal_def)

lemma replace_global_illegal:
  "replace_global rx_illegal [] pre s = filter (\<lambda>c. c \<notin> set illegalChars) s"
proof (induction s arbitrary: pre)
  case Nil
  show ?case by (subst replace_global.simps) (simp add: bt_rx_illegal)
next
  case (Cons c cs)
  show ?case
    by (subst replace_global.simps) (simp add: bt_rx_illegal Cons)
qed

lemma bt_Star_only: "bt [Star p] s = Some ([], dropWhile p s)"
  by (induction s) auto

lemma replace_global_spaces: "replace_global rx_spaces '' '' pre s = collapse_spaces s"
proof (induction s arbitrary: pre rule: collapse_spaces.induct)
  case 1
  show ?case by (subst replace_global.simps) (simp add: rx_spaces_def)
next
  case (2 c cs)
  show ?case
  proof (cases "isWhiteSpace c")
    case True
    then have "bt rx_spaces (c # cs) = Some ([], dropWhile isWhiteSpace cs)"
      by (simp add: rx_spaces_def bt_Star_only)
    moreover have "length (dropWhile isWhiteSpace cs) < length (c # cs)"
      by (simp add: le_imp_less_Suc length_dropWhile_le)
    ultimately have "replace_global rx_spaces '' '' pre (c # cs)
        = '' '' @ replace_global rx_spaces '' ''
            (pre @ take (length (c # cs) - length (dropWhile isWhiteSpace cs)) (c # cs))
            (dropWhile isWhiteSpace cs)"
      by (subst replace_global.simps) simp
    with True 2 show ?thesis by simp
  next
    case False
    then have "bt rx_spaces (c # cs) = None" by (simp add: rx_spaces_def)
    then have "replace_global rx_spaces '' '' pre (c # cs) = c # replace_global rx_spaces '' '' (pre @ [c]) cs"
      by (subst replace_global.simps) simp
    with False 2 show ?thesis by simp
  qed
qed

lemma cleanAssignmentName_eq_spec: "cleanAssignmentName s = cleanName_spec s"
  unfolding cleanAssignmentName_def cleanName_spec_def replace_all_def
    strip_course_tokens_def strip_date_def strip_illegal_def
  by (simp only: replace_global_tags replace_global_fixed [of rx_courseToken is_course_token 7, OF bt_rx_courseToken]
      replace_first_fixed [of rx_date is_date 9, OF bt_rx_date] replace_global_illegal replace_global_spaces)

section \<open>A second pass of the name cleaner\<close>

subsection \<open>Replacing where nothing matches\<close>

lemma exec_None_Cons: "exec rx (c # cs) = None \<Longrightarrow> bt rx (c # cs) = None \<and> exec rx cs = None"
  by (auto split: option.splits)

lemma replace_global_no_match: "exec rx s = None \<Longrightarrow> replace_global rx t pre s = s"
proof (induction s arbitrary: pre)
  case Nil
  then show ?case by (subst replace_global.simps) simp
next
  case (Cons c cs)
  from exec_None_Cons [OF Cons.prems] have "bt rx (c # cs) = None" and "exec rx cs = None"
    by simp_all
  then show ?case using Cons.IH by (subst replace_global.simps) simp
qed

lemma replace_first_no_match: "exec rx s = None \<Longrightarrow> replace_first rx t s = s"
  by (simp add: replace_first_def)

subsection \<open>What the last three steps leave\<close>

lemma set_collapse_spaces: "set (collapse_spaces u) \<subseteq> insert (CHR '' '') (set u)"
proof (induction u rule: collapse_spaces.induct)
  case 1
  then show ?case by simp
next
  case (2 c cs)
  have "set (dropWhile isWhiteSpace cs) \<subseteq> set cs"
    by (simp add: set_dropWhileD subsetI)
  with 2 show ?case by auto
qed

lemma rev_dropWhile_split: "v = rev (dropWhile P (rev v)) @ rev (takeWhile P (rev v))"
proof -
  have "rev (dropWhile P (rev v)) @ rev (takeWhile P (rev v))
      = rev (takeWhile P (rev v) @ dropWhile P (rev v))"
    by (simp only: rev_append)
  also have "\<dots> = rev (rev v)" by (simp only: takeWhile_dropWhile_id)
  also have "\<dots> = v" by (simp only: rev_rev_ident)
  finally show ?thesis by (rule sym)
qed

lemma trim_infix: "\<exists>p q. w = p @ trim w @ q"
proof -
  let ?v = "dropWhile isWhiteSpace w"
  have "w = takeWhile isWhiteSpace w @ ?v" by simp
  moreover have "?v = trim w @ rev (takeWhile isWhiteSpace (rev ?v))"
    unfolding trim_def by (rule rev_dropWhile_split)
  ultimately have "w = takeWhile isWhiteSpace w @ trim w @ rev (takeWhile isWhiteSpace (rev ?v))"
    by simp
  then show ?thesis by blast
qed

lemma set_trim: "set (trim w) \<subseteq> set w"
proof -
  obtain p q where "w = p @ trim w @ q" using trim_infix by blast
  then have "set w = set p \<union> set (trim w) \<union> set q" by (metis set_append sup_assoc)
  then show ?thesis by blast
qed

lemma trim_idem: "trim (trim w) = trim w"
proof -
  let ?v = "dropWhile isWhiteSpace w"
  let ?t = "trim w"
  have rt: "rev ?t = dropWhile isWhiteSpace (rev ?v)" by (simp add: trim_def)
  have left: "dropWhile isWhiteSpace ?t = ?t"
  proof (cases ?t)
    case Nil
    then show ?thesis by simp
  next
    case (Cons a as)
    have "?v = ?t @ rev (takeWhile isWhiteSpace (rev ?v))"
      unfolding trim_def by (rule rev_dropWhile_split)
    with Cons have v: "?v = a # (as @ rev (takeWhile isWhiteSpace (rev ?v)))" by simp
    then have "?v \<noteq> []" by (rule list.discI)
    then have "\<not> isWhiteSpace (hd ?v)" by (rule hd_dropWhile)
    moreover from v have "hd ?v = a" by (rule hd_eqI)
    ultimately have "\<not> isWhiteSpace a" by simp
    with Cons show ?thesis by simp
  qed
  have "trim ?t = rev (dropWhile isWhiteSpace (rev (dropWhile isWhiteSpace ?t)))"
    by (simp only: trim_def)
  also have "\<dots> = rev (dropWhile isWhiteSpace (rev ?t))" by (simp only: left)
  also have "\<dots> = rev (dropWhile isWhiteSpace (dropWhile isWhiteSpace (rev ?v)))" by (simp only: rt)
  also have "\<dots> = rev (dropWhile isWhiteSpace (rev ?v))" by (simp only: dropWhile_idem)
  also have "\<dots> = ?t" by (simp only: rt [symmetric] rev_rev_ident)
  finally show ?thesis .
qed

lemma single_spaced_collapse: "single_spaced (collapse_spaces u)"
proof (induction u rule: collapse_spaces.induct)
  case 1
  then show ?case by simp
next
  case (2 c cs)
  show ?case
  proof (cases "isWhiteSpace c")
    case True
    have sp: "isWhiteSpace (CHR '' '')" by (simp add: isWhiteSpace_def)
    have next_ok: "(case collapse_spaces (dropWhile isWhiteSpace cs) of [] \<Rightarrow> True | d # _ \<Rightarrow> \<not> isWhiteSpace d)"
    proof (cases "dropWhile isWhiteSpace cs")
      case Nil
      then show ?thesis by (simp only: collapse_spaces.simps list.case)
    next
      case (Cons d ds)
      then have "dropWhile isWhiteSpace cs \<noteq> []" by simp
      then have "\<not> isWhiteSpace (hd (dropWhile isWhiteSpace cs))" by (rule hd_dropWhile)
      with Cons have "\<not> isWhiteSpace d" by simp
      with Cons show ?thesis by simp
    qed
    from True 2 next_ok sp show ?thesis by simp
  next
    case False
    with 2 show ?thesis by simp
  qed
qed

lemma collapse_single_spaced: "single_spaced w \<Longrightarrow> collapse_spaces w = w"
proof (induction w)
  case Nil
  then show ?case by simp
next
  case (Cons c cs)
  show ?case
  proof (cases "isWhiteSpace c")
    case True
    with Cons.prems have c: "c = CHR '' ''" and nxt: "(case cs of [] \<Rightarrow> True | d # _ \<Rightarrow> \<not> isWhiteSpace d)"
      and rest: "single_spaced cs"
      by simp_all
    from nxt have "dropWhile isWhiteSpace cs = cs" by (cases cs) simp_all
    with True c rest Cons.IH show ?thesis by simp
  next
    case False
    with Cons show ?thesis by simp
  qed
qed

lemma single_spaced_append: "single_spaced (a @ b) \<Longrightarrow> single_spaced a \<and> single_spaced b"
proof (induction a)
  case Nil
  then show ?case by simp
next
  case (Cons c a)
  from Cons.prems have rest: "single_spaced (a @ b)" by simp
  with Cons.IH have ab: "single_spaced a \<and> single_spaced b" by simp
  show ?case
  proof (cases "isWhiteSpace c")
    case True
    with Cons.prems have c: "c = CHR '' ''"
      and nxt: "(case a @ b of [] \<Rightarrow> True | d # _ \<Rightarrow> \<not> isWhiteSpace d)"
      by simp_all
    from nxt have "(case a of [] \<Rightarrow> True | d # _ \<Rightarrow> \<not> isWhiteSpace d)"
      by (cases a) simp_all
    with True c ab show ?thesis by simp
  next
    case False
    with ab show ?thesis by simp
  qed
qed

lemma single_spaced_trim: "single_spaced w \<Longrightarrow> single_spaced (trim w)"
proof -
  assume w: "single_spaced w"
  obtain p q where "w = p @ (trim w @ q)" using trim_infix by blast
  with w have "single_spaced (p @ (trim w @ q))" by simp
  then have "single_spaced (trim w @ q)" using single_spaced_append by blast
  then show ?thesis using single_spaced_append by blast
qed

lemma space_legal: "CHR '' '' \<notin> set illegalChars"
  by (simp add: illegalChars_def)

lemma cleanName_spec_legal: "set (cleanName_spec s) \<inter> set illegalChars = {}"
proof -
  let ?f = "strip_illegal (strip_date (strip_course_tokens (strip_tags s)))"
  have "set (cleanName_spec s) \<subseteq> set (collapse_spaces ?f)"
    unfolding cleanName_spec_def by (rule set_trim)
  also have "\<dots> \<subseteq> insert (CHR '' '') (set ?f)" by (rule set_collapse_spaces)
  finally have "set (cleanName_spec s) \<subseteq> insert (CHR '' '') (set ?f)" .
  moreover have "set ?f \<inter> set illegalChars = {}" by (auto simp: strip_illegal_def)
  ultimately show ?thesis using space_legal by auto
qed

lemma cleanName_spec_single_spaced: "single_spaced (cleanName_spec s)"
  unfolding cleanName_spec_def by (rule single_spaced_trim) (rule single_spaced_collapse)

lemma cleanName_spec_trimmed: "trim (cleanName_spec s) = cleanName_spec s"
  unfolding cleanName_spec_def by (rule trim_idem)

lemma cleanAssignmentName_fixpoint:
  assumes "exec rx_tag y = None" and "exec rx_courseToken y = None" and "exec rx_date y = None"
    and "set y \<inter> set illegalChars = {}" and "single_spaced y" and "trim y = y"
  shows "cleanAssignmentName y = y"
proof -
  have legal: "filter (\<lambda>c. c \<notin> set illegalChars) y = y"
    using assms(4) by (auto intro: filter_True)
  show ?thesis
    unfolding cleanAssignmentName_def replace_all_def
    by (simp only: replace_global_no_match [OF assms(1)] replace_global_no_match [OF assms(2)]
        replace_first_no_match [OF assms(3)] replace_global_illegal legal replace_global_spaces
        collapse_single_spaced [OF assms(5)] assms(6))
qed

text \<open>
  Claim C5. \<open>cleanAssignmentName\<close>, the chain of regular-expression replacements of the source,
  computes what the specification says: it strips every bracketed tag, every \<open>-XXX###-\<close> token,
  the first \<open>YYYY-MM-DD\<close> date and every character of \<open>*"\/<>:|?\<close>, then collapses each run of
  whitespace to one space and trims. No character of that set is left in the result, and
  the title \<open>[HW] Essay -ENG101- 2025-03-01*\<close> is cleaned to \<open>Essay\<close>.
\<close>

theorem cleanAssignmentName_strips:
  "cleanAssignmentName s =
     trim (collapse_spaces (strip_illegal (strip_date (strip_course_tokens (strip_tags s)))))
   \<and> set (cleanAssignmentName s) \<inter> set illegalChars = {}
   \<and> cleanAssignmentName ''[HW] Essay -ENG101- 2025-03-01*'' = ''Essay''"
proof (intro conjI)
  show "cleanAssignmentName s =
     trim (collapse_spaces (strip_illegal (strip_date (strip_course_tokens (strip_tags s)))))"
    using cleanAssignmentName_eq_spec [of s] by (simp only: cleanName_spec_def)
  show "set (cleanAssignmentName s) \<inter> set illegalChars = {}"
    using cleanName_spec_legal [of s] by (simp only: cleanAssignmentName_eq_spec)
  show "cleanAssignmentName ''[HW] Essay -ENG101- 2025-03-01*'' = ''Essay''"
    by code_simp
qed

theorem cleanAssignmentName_strips_witness:
  "cleanAssignmentName ''[a] -ENG101-x-ENG101-MAT200- 2025-03-01 2025-03-02 [b'' = ''xMAT200- 2025-03-02 [b''
   \<and> trim (collapse_spaces (strip_illegal (strip_date (strip_course_tokens
        (strip_tags ''[a] -ENG101-x-ENG101-MAT200- 2025-03-01 2025-03-02 [b'')))))
      = ''xMAT200- 2025-03-02 [b''"
proof -
  have v: "trim (collapse_spaces (strip_illegal (strip_date (strip_course_tokens
        (strip_tags ''[a] -ENG101-x-ENG101-MAT200- 2025-03-01 2025-03-02 [b'')))))
      = ''xMAT200- 2025-03-02 [b''"
    by code_simp
  from cleanAssignmentName_strips [of "''[a] -ENG101-x-ENG101-MAT200- 2025-03-01 2025-03-02 [b''"]
  have "cleanAssignmentName ''[a] -ENG101-x-ENG101-MAT200- 2025-03-01 2025-03-02 [b'' =
     trim (collapse_spaces (strip_illegal (strip_date (strip_course_tokens
        (strip_tags ''[a] -ENG101-x-ENG101-MAT200- 2025-03-01 2025-03-02 [b'')))))"
    by (rule conjunct1)
  then have "cleanAssignmentName ''[a] -ENG101-x-ENG101-MAT200- 2025-03-01 2025-03-02 [b'' = ''xMAT200- 2025-03-02 [b''"
    by (simp only: v)
  then show ?thesis using v by (rule conjI)
qed

text \<open>
  Claim C6. When one pass leaves no bracketed tag, no \<open>-XXX###-\<close> token and no date (no match
  of the three regular expressions in \<open>cleanAssignmentName x\<close>), a second pass changes nothing.
\<close>

theorem cleanAssignmentName_idempotent:
  assumes "exec rx_tag (cleanAssignmentName x) = None"
    and "exec rx_courseToken (cleanAssignmentName x) = None"
    and "exec rx_date (cleanAssignmentName x) = None"
  shows "cleanAssignmentName (cleanAssignmentName x) = cleanAssignmentName x"
proof (rule cleanAssignmentName_fixpoint [OF assms])
  show "set (cleanAssignmentName x) \<inter> set illegalChars = {}"
    using cleanName_spec_legal [of x] by (simp only: cleanAssignmentName_eq_spec)
  show "single_spaced (cleanAssignmentName x)"
    using cleanName_spec_single_spaced [of x] by (simp only: cleanAssignmentName_eq_spec)
  show "trim (cleanAssignmentName x) = cleanAssignmentName x"
    using cleanName_spec_trimmed [of x] by (simp only: cleanAssignmentName_eq_spec)
qed

lemma clean_example: "cleanAssignmentName ''[HW] Essay -ENG101- 2025-03-01*'' = ''Essay''"
  by code_simp

theorem cleanAssignmentName_idempotent_witness:
  "cleanAssignmentName (cleanAssignmentName ''[HW] Essay -ENG101- 2025-03-01*'')
     = cleanAssignmentName ''[HW] Essay -ENG101- 2025-03-01*''"
proof -
  have 1: "exec rx_tag (cleanAssignmentName ''[HW] Essay -ENG101- 2025-03-01*'') = None"
    unfolding clean_example by code_simp
  have 2: "exec rx_courseToken (cleanAssignmentName ''[HW] Essay -ENG101- 2025-03-01*'') = None"
    unfolding clean_example by code_simp
  have 3: "exec rx_date (cleanAssignmentName ''[HW] Essay -ENG101- 2025-03-01*'') = None"
    unfolding clean_example by code_simp
  show ?thesis using cleanAssignmentName_idempotent [OF 1 2 3] .
qed

lemma cleanAssignmentName_second_pass_example:
  "cleanAssignmentName ''-ABC*123-'' = ''-ABC123-'' \<and> cleanAssignmentName ''-ABC123-'' = []"
  by code_simp

section \<open>The reconciliation loop: counters, store and note body\<close>

subsection \<open>The heading-anchored replacement\<close>

lemma list_all2_lit: "list_all2 (\<lambda>p c. p c) (map (\<lambda>ch c. c = ch) h) t \<longleftrightarrow> t = h"
proof (induction h arbitrary: t)
  case Nil
  then show ?case by simp
next
  case (Cons a h)
  then show ?case by (cases t) auto
qed

lemma take_eq_iff_append: "take (length h) s = h \<longleftrightarrow> (\<exists>v. s = h @ v)"
proof
  assume "take (length h) s = h"
  then have "s = h @ drop (length h) s" by (metis append_take_drop_id)
  then show "\<exists>v. s = h @ v" ..
next
  assume "\<exists>v. s = h @ v"
  then show "take (length h) s = h" by auto
qed

lemma bt_lit: "bt (lit h @ k) s = (if \<exists>v. s = h @ v then bt k (drop (length h) s) else None)"
proof -
  have "lit h = map One (map (\<lambda>ch c. c = ch) h)"
    by (simp add: lit_def)
  then have "bt (lit h @ k) s =
      (if list_all2 (\<lambda>p c. p c) (map (\<lambda>ch c. c = ch) h) (take (length h) s)
       then bt k (drop (length h) s) else None)"
    using bt_Ones [of "map (\<lambda>ch c. c = ch) h" k s] by simp
  then show ?thesis
    by (simp only: list_all2_lit take_eq_iff_append)
qed

lemma bt_Star_all_EndInput: "bt [Star (\<lambda>c. isWhiteSpace c \<or> \<not> isWhiteSpace c), EndInput] s = Some ([], [])"
  by (induction s) simp_all

lemma bt_rx_details:
  "bt rx_details s = (if \<exists>v. s = ''## Assignment Details'' @ v then Some ([], []) else None)"
  unfolding rx_details_def bt_lit bt_Star_all_EndInput ..

lemma exec_rx_details_None:
  assumes "\<not> (\<exists>u v. s = u @ ''## Assignment Details'' @ v)"
  shows "exec rx_details s = None"
  using assms
proof (induction s)
  case Nil
  then have "\<not> (\<exists>v. [] = ''## Assignment Details'' @ v)" by simp
  then show ?case by (simp add: bt_rx_details)
next
  case (Cons c cs)
  have here: "\<not> (\<exists>v. c # cs = ''## Assignment Details'' @ v)"
  proof
    assume "\<exists>v. c # cs = ''## Assignment Details'' @ v"
    then obtain v where "c # cs = [] @ ''## Assignment Details'' @ v" by auto
    with Cons.prems show False by blast
  qed
  have "\<not> (\<exists>u v. cs = u @ ''## Assignment Details'' @ v)"
  proof
    assume "\<exists>u v. cs = u @ ''## Assignment Details'' @ v"
    then obtain u v where "cs = u @ ''## Assignment Details'' @ v" by auto
    then have "c # cs = (c # u) @ ''## Assignment Details'' @ v" by simp
    with Cons.prems show False by blast
  qed
  with Cons.IH have "exec rx_details cs = None" by simp
  moreover from here have "bt rx_details (c # cs) = None" by (simp only: bt_rx_details if_False)
  ultimately show ?case by simp
qed

lemma exec_rx_details_first:
  assumes "\<forall>p' r'. p @ ''## Assignment Details'' @ r = p' @ ''## Assignment Details'' @ r' \<longrightarrow> length p \<le> length p'"
  shows "exec rx_details (p @ ''## Assignment Details'' @ r) = Some (p, [], [])"
  using assms
proof (induction p)
  case Nil
  have "\<exists>v. [] @ ''## Assignment Details'' @ r = ''## Assignment Details'' @ v" by simp
  then have "bt rx_details ([] @ ''## Assignment Details'' @ r) = Some ([], [])"
    by (simp only: bt_rx_details if_True)
  then show ?case by simp
next
  case (Cons c p)
  let ?s = "p @ ''## Assignment Details'' @ r"
  have here: "\<not> (\<exists>v. c # ?s = ''## Assignment Details'' @ v)"
  proof
    assume "\<exists>v. c # ?s = ''## Assignment Details'' @ v"
    then obtain v where "(c # p) @ ''## Assignment Details'' @ r = [] @ ''## Assignment Details'' @ v" by auto
    with Cons.prems have "length (c # p) \<le> length ([]::string)" by blast
    then show False by simp
  qed
  have "\<forall>p' r'. ?s = p' @ ''## Assignment Details'' @ r' \<longrightarrow> length p \<le> length p'"
  proof (intro allI impI)
    fix p' r'
    assume "?s = p' @ ''## Assignment Details'' @ r'"
    then have "(c # p) @ ''## Assignment Details'' @ r = (c # p') @ ''## Assignment Details'' @ r'" by simp
    with Cons.prems have "length (c # p) \<le> length (c # p')" by blast
    then show "length p \<le> length p'" by simp
  qed
  with Cons.IH have "exec rx_details ?s = Some (p, [], [])" by simp
  moreover from here have "bt rx_details (c # ?s) = None" by (simp only: bt_rx_details if_False)
  ultimately show ?case by simp
qed

lemma getSubstitution_plain: "CHR ''$'' \<notin> set t \<Longrightarrow> getSubstitution m b a t = t"
  by (induction m b a t rule: getSubstitution.induct) auto

lemma updatedContent_no_heading:
  assumes "\<not> (\<exists>u v. body = u @ ''## Assignment Details'' @ v)"
  shows "updatedContent a body = body"
  using exec_rx_details_None [OF assms] by (simp add: updatedContent_def replace_first_def)

lemma updatedContent_first_heading:
  assumes "\<forall>p' r'. p @ ''## Assignment Details'' @ r = p' @ ''## Assignment Details'' @ r' \<longrightarrow> length p \<le> length p'"
  shows "updatedContent a (p @ ''## Assignment Details'' @ r)
           = p @ getSubstitution (''## Assignment Details'' @ r) p [] (detailsSection a)"
  using exec_rx_details_first [OF assms] by (simp add: updatedContent_def replace_first_def matched_def)

subsection \<open>What one iteration does to the counters and to the store\<close>

lemma contentUpdate_cases:
  "(\<exists>v1. contentUpdate env a f st = Normal (st\<lparr>vault := v1, updatedCount := updatedCount st + 1\<rparr>))
   \<or> (\<exists>v1. contentUpdate env a f st = Continue (st\<lparr>vault := v1\<rparr>))"
proof (cases "vault_read env (vault st) f")
  case None
  then have "contentUpdate env a f st = Continue (st\<lparr>vault := vault st\<rparr>)"
    by (simp add: contentUpdate_def)
  then show ?thesis by blast
next
  case (Some body)
  obtain ok v1 where m: "vault_modify env (vault st) f (updatedContent a body) = (ok, v1)"
    by (cases "vault_modify env (vault st) f (updatedContent a body)")
  show ?thesis
  proof (cases ok)
    case True
    with Some m have "contentUpdate env a f st = Normal (st\<lparr>vault := v1, updatedCount := updatedCount st + 1\<rparr>)"
      by (simp add: contentUpdate_def)
    then show ?thesis by blast
  next
    case False
    with Some m have "contentUpdate env a f st = Continue (st\<lparr>vault := v1\<rparr>)"
      by (simp add: contentUpdate_def)
    then show ?thesis by blast
  qed
qed

lemma dueDatePass_cases:
  "(\<exists>v1. dueDatePass env a f st = Normal (st\<lparr>vault := v1, dueDateUpdatedCount := dueDateUpdatedCount st + 1\<rparr>))
   \<or> (\<exists>v1. dueDatePass env a f st = Normal (st\<lparr>vault := v1\<rparr>))
   \<or> dueDatePass env a f st = Normal (st\<lparr>skippedCount := skippedCount st + 1\<rparr>)
   \<or> dueDatePass env a f st = Throw st"
proof (cases "vault_read env (vault st) f")
  case None
  then show ?thesis by (simp add: dueDatePass_def)
next
  case (Some body)
  show ?thesis
  proof (cases "currentDueDate body \<noteq> formattedDate env a")
    case False
    with Some show ?thesis by (simp add: dueDatePass_def)
  next
    case True
    obtain ok v1 where u: "updateDueDate env (vault st) f (formattedDate env a) = (ok, v1)"
      by (cases "updateDueDate env (vault st) f (formattedDate env a)")
    show ?thesis
    proof (cases ok)
      case True
      with Some \<open>currentDueDate body \<noteq> formattedDate env a\<close> u
      have "dueDatePass env a f st = Normal (st\<lparr>vault := v1, dueDateUpdatedCount := dueDateUpdatedCount st + 1\<rparr>)"
        by (simp add: dueDatePass_def)
      then show ?thesis by blast
    next
      case False
      with Some \<open>currentDueDate body \<noteq> formattedDate env a\<close> u
      have "dueDatePass env a f st = Normal (st\<lparr>vault := v1\<rparr>)"
        by (simp add: dueDatePass_def)
      then show ?thesis by blast
    qed
  qed
qed

lemma reconcile_created_cases:
  assumes "\<not> isNull (processedAssignments st)"
    and "findExistingAssignmentFile env (vault st) (directoryPath settings a) (cleanAssignmentName (name a)) = None"
  shows "(\<exists>v1. reconcile env settings a st = Normal (st\<lparr>vault := v1, createdCount := createdCount st + 1\<rparr>))
       \<or> (\<exists>v1. reconcile env settings a st = Continue (st\<lparr>vault := v1\<rparr>))"
proof -
  obtain ok v1 where c: "createNote env settings a (vault st) = (ok, v1)"
    by (cases "createNote env settings a (vault st)")
  show ?thesis
  proof (cases ok)
    case True
    with assms c have "reconcile env settings a st = Normal (st\<lparr>vault := v1, createdCount := createdCount st + 1\<rparr>)"
      by (simp add: reconcile_def)
    then show ?thesis by blast
  next
    case False
    with assms c have "reconcile env settings a st = Continue (st\<lparr>vault := v1\<rparr>)"
      by (simp add: reconcile_def)
    then show ?thesis by blast
  qed
qed

lemma reconcile_summary:
  "(case reconcile env settings a st of
      Normal st' \<Rightarrow>
        processedAssignments st' = processedAssignments st
        \<and> (counters st' = (createdCount st + 1, updatedCount st, dueDateUpdatedCount st, skippedCount st)
           \<or> counters st' = (createdCount st, updatedCount st + changedBy (processedAssignments st) a,
                             dueDateUpdatedCount st + 1, skippedCount st)
           \<or> counters st' = (createdCount st, updatedCount st + changedBy (processedAssignments st) a,
                             dueDateUpdatedCount st, skippedCount st + 1)
           \<or> counters st' = (createdCount st, updatedCount st + changedBy (processedAssignments st) a,
                             dueDateUpdatedCount st, skippedCount st))
    | Continue st' \<Rightarrow> processedAssignments st' = processedAssignments st \<and> counters st' = counters st
    | Throw st' \<Rightarrow> processedAssignments st' = processedAssignments st)"
proof (cases "isNull (processedAssignments st)")
  case True
  then have "reconcile env settings a st = Throw st"
    by (simp add: reconcile_def)
  then show ?thesis by simp
next
  case object: False
  show ?thesis
  proof (cases "findExistingAssignmentFile env (vault st) (directoryPath settings a) (cleanAssignmentName (name a))")
    case None
    from reconcile_created_cases [OF object None] show ?thesis
      by (auto simp: counters_def)
  next
    case (Some f)
    show ?thesis
    proof (cases "contentChanged (processedAssignments st) a")
      case False
      with Some object have r: "reconcile env settings a st = dueDatePass env a f st"
        by (simp add: reconcile_def)
      from False have c: "changedBy (processedAssignments st) a = 0" by (simp add: changedBy_def)
      from dueDatePass_cases [of env a f st] show ?thesis
        unfolding r c by (auto simp: counters_def)
    next
      case True
      then have c: "changedBy (processedAssignments st) a = 1" by (simp add: changedBy_def)
      from contentUpdate_cases [of env a f st] show ?thesis
      proof (elim disjE exE)
        fix v1
        assume u: "contentUpdate env a f st = Continue (st\<lparr>vault := v1\<rparr>)"
        with Some True object have "reconcile env settings a st = Continue (st\<lparr>vault := v1\<rparr>)"
          by (simp add: reconcile_def)
        then show ?thesis by (simp add: counters_def)
      next
        fix v1
        let ?st1 = "st\<lparr>vault := v1, updatedCount := updatedCount st + 1\<rparr>"
        assume u: "contentUpdate env a f st = Normal ?st1"
        with Some True object have r: "reconcile env settings a st = dueDatePass env a f ?st1"
          by (simp add: reconcile_def)
        from dueDatePass_cases [of env a f ?st1] show ?thesis
          unfolding r c by (auto simp: counters_def)
      qed
    qed
  qed
qed

lemma processAssignment_summary:
  "(case processAssignment env settings a st of
      Normal st' \<Rightarrow>
        (\<exists>m. processedAssignments st = Object m
            \<and> processedAssignments st' = Object (m(assignmentKey a \<mapsto> Str (getAssignmentHash a))))
        \<and> (counters st' = (createdCount st + 1, updatedCount st, dueDateUpdatedCount st, skippedCount st)
           \<or> counters st' = (createdCount st, updatedCount st + changedBy (processedAssignments st) a,
                             dueDateUpdatedCount st + 1, skippedCount st)
           \<or> counters st' = (createdCount st, updatedCount st + changedBy (processedAssignments st) a,
                             dueDateUpdatedCount st, skippedCount st + 1)
           \<or> counters st' = (createdCount st, updatedCount st + changedBy (processedAssignments st) a,
                             dueDateUpdatedCount st, skippedCount st))
    | Continue st' \<Rightarrow> processedAssignments st' = processedAssignments st \<and> counters st' = counters st
    | Throw st' \<Rightarrow> processedAssignments st' = processedAssignments st)"
proof -
  obtain ok v1 where d: "ensureDirectories env settings a (vault st) = (ok, v1)"
    by (cases "ensureDirectories env settings a (vault st)")
  show ?thesis
  proof (cases ok)
    case False
    with d have "processAssignment env settings a st = Continue (st\<lparr>vault := v1\<rparr>)"
      by (simp add: processAssignment_def)
    then show ?thesis by (simp add: counters_def)
  next
    case True
    let ?st1 = "st\<lparr>vault := v1\<rparr>"
    from True d have p: "processAssignment env settings a st =
        (case reconcile env settings a ?st1 of
           Normal st2 \<Rightarrow>
             (case writeStore (processedAssignments st2) (assignmentKey a) (getAssignmentHash a) of
                None \<Rightarrow> Throw st2
              | Some written \<Rightarrow> Normal (st2\<lparr>processedAssignments := written\<rparr>))
         | Continue st2 \<Rightarrow> Continue st2
         | Throw st2 \<Rightarrow> Throw st2)"
      by (simp add: processAssignment_def)
    note r = reconcile_summary [where env = env and settings = settings and a = a and st = ?st1]
    show ?thesis
    proof (cases "reconcile env settings a ?st1")
      case (Normal st2)
      with r have same: "processedAssignments st2 = processedAssignments st" by simp
      show ?thesis
      proof (cases "processedAssignments st")
        case (Object m)
        with Normal same have "processAssignment env settings a st
            = Normal (st2\<lparr>processedAssignments := Object (m(assignmentKey a \<mapsto> Str (getAssignmentHash a)))\<rparr>)"
          unfolding p by (simp add: writeStore_def)
        with r Normal Object show ?thesis by (auto simp: counters_def)
      next
        case Null
        with Normal same have "processAssignment env settings a st = Throw st2"
          unfolding p by (simp add: writeStore_def)
        with same show ?thesis by simp
      next
        case Primitive
        with Normal same have "processAssignment env settings a st = Throw st2"
          unfolding p by (simp add: writeStore_def)
        with same show ?thesis by simp
      qed
    next
      case (Continue st2)
      with r show ?thesis unfolding p by (simp add: counters_def)
    next
      case (Throw st2)
      with r show ?thesis unfolding p by simp
    qed
  qed
qed


lemma processAssignment_step:
  assumes "processAssignment env settings a st = Normal st1 \<or> processAssignment env settings a st = Continue st1"
  shows "createdCount st \<le> createdCount st1 \<and> updatedCount st \<le> updatedCount st1
       \<and> dueDateUpdatedCount st \<le> dueDateUpdatedCount st1 \<and> skippedCount st \<le> skippedCount st1
       \<and> updatedCount st1 \<le> updatedCount st + 1
       \<and> createdCount st1 + dueDateUpdatedCount st1 + skippedCount st1
           \<le> createdCount st + dueDateUpdatedCount st + skippedCount st + 1"
  using assms processAssignment_summary [where env = env and settings = settings and a = a and st = st]
  by (auto simp add: counters_def changedBy_def split: if_splits)

lemma assignments_loop_counters:
  assumes "assignments_loop env settings as st = Inr final"
  shows "createdCount st \<le> createdCount final \<and> updatedCount st \<le> updatedCount final
       \<and> dueDateUpdatedCount st \<le> dueDateUpdatedCount final \<and> skippedCount st \<le> skippedCount final
       \<and> updatedCount final \<le> updatedCount st + length as
       \<and> createdCount final + dueDateUpdatedCount final + skippedCount final
           \<le> createdCount st + dueDateUpdatedCount st + skippedCount st + length as"
  using assms
proof (induction as arbitrary: st)
  case Nil
  then show ?case by simp
next
  case (Cons a as)
  show ?case
  proof (cases "processAssignment env settings a st")
    case (Normal st1)
    with Cons.prems have "assignments_loop env settings as st1 = Inr final" by simp
    from Cons.IH [OF this] processAssignment_step [where env = env and settings = settings and a = a
        and st = st and ?st1.0 = st1] Normal
    show ?thesis by simp
  next
    case (Continue st1)
    with Cons.prems have "assignments_loop env settings as st1 = Inr final" by simp
    from Cons.IH [OF this] processAssignment_step [where env = env and settings = settings and a = a
        and st = st and ?st1.0 = st1] Continue
    show ?thesis by simp
  next
    case (Throw st1)
    with Cons.prems show ?thesis by simp
  qed
qed

lemma assignmentKey_hyphen: "CHR ''-'' \<in> set (assignmentKey a)"
proof -
  have l: "lowerChar (CHR ''-'') = CHR ''-''" by code_simp
  have "CHR ''-'' \<in> set (course a @ ''-'' @ cleanAssignmentName (name a))" by simp
  then have "lowerChar (CHR ''-'') \<in> lowerChar ` set (course a @ ''-'' @ cleanAssignmentName (name a))"
    by (rule imageI)
  then show ?thesis by (simp only: l assignmentKey_def toLowerCase_def set_map)
qed

subsection \<open>The paths through one iteration\<close>

lemma processAssignment_created:
  assumes "ensureDirectories env settings a (vault st) = (True, v1)"
    and "processedAssignments st = Object m"
    and "findExistingAssignmentFile env v1 (directoryPath settings a) (cleanAssignmentName (name a)) = None"
    and "createNote env settings a v1 = (True, v2)"
  shows "processAssignment env settings a st
       = Normal (st\<lparr>vault := v2,
                   processedAssignments := Object (m(assignmentKey a \<mapsto> Str (getAssignmentHash a))),
                   createdCount := createdCount st + 1\<rparr>)"
  using assms by (simp add: processAssignment_def reconcile_def writeStore_def)

lemma processAssignment_unchanged:
  assumes "ensureDirectories env settings a (vault st) = (True, v1)"
    and "processedAssignments st = Object m"
    and "findExistingAssignmentFile env v1 (directoryPath settings a) (cleanAssignmentName (name a)) = Some f"
    and "\<not> contentChanged (processedAssignments st) a"
    and "vault_read env v1 f = Some content"
  shows "processAssignment env settings a st
       = (if currentDueDate content = formattedDate env a
          then Normal (st\<lparr>vault := v1,
                   processedAssignments := Object (m(assignmentKey a \<mapsto> Str (getAssignmentHash a))),
                   skippedCount := skippedCount st + 1\<rparr>)
          else if fst (updateDueDate env v1 f (formattedDate env a))
          then Normal (st\<lparr>vault := snd (updateDueDate env v1 f (formattedDate env a)),
                   processedAssignments := Object (m(assignmentKey a \<mapsto> Str (getAssignmentHash a))),
                   dueDateUpdatedCount := dueDateUpdatedCount st + 1\<rparr>)
          else Normal (st\<lparr>vault := snd (updateDueDate env v1 f (formattedDate env a)),
                   processedAssignments := Object (m(assignmentKey a \<mapsto> Str (getAssignmentHash a)))\<rparr>))"
  using assms
  by (cases "updateDueDate env v1 f (formattedDate env a)")
     (simp add: processAssignment_def reconcile_def writeStore_def dueDatePass_def)

lemma processAssignment_changed:
  assumes "ensureDirectories env settings a (vault st) = (True, v1)"
    and "processedAssignments st = Object m"
    and "findExistingAssignmentFile env v1 (directoryPath settings a) (cleanAssignmentName (name a)) = Some f"
    and "contentChanged (processedAssignments st) a"
    and "vault_read env v1 f = Some body"
    and "vault_modify env v1 f (updatedContent a body) = (True, v2)"
    and "vault_read env v2 f = Some content"
  shows "processAssignment env settings a st
       = (if currentDueDate content = formattedDate env a
          then Normal (st\<lparr>vault := v2,
                   processedAssignments := Object (m(assignmentKey a \<mapsto> Str (getAssignmentHash a))),
                   updatedCount := updatedCount st + 1, skippedCount := skippedCount st + 1\<rparr>)
          else if fst (updateDueDate env v2 f (formattedDate env a))
          then Normal (st\<lparr>vault := snd (updateDueDate env v2 f (formattedDate env a)),
                   processedAssignments := Object (m(assignmentKey a \<mapsto> Str (getAssignmentHash a))),
                   updatedCount := updatedCount st + 1, dueDateUpdatedCount := dueDateUpdatedCount st + 1\<rparr>)
          else Normal (st\<lparr>vault := snd (updateDueDate env v2 f (formattedDate env a)),
                   processedAssignments := Object (m(assignmentKey a \<mapsto> Str (getAssignmentHash a))),
                   updatedCount := updatedCount st + 1\<rparr>))"
  using assms
  by (cases "updateDueDate env v2 f (formattedDate env a)")
     (simp add: processAssignment_def reconcile_def writeStore_def dueDatePass_def contentUpdate_def)

lemma processAssignment_null_store:
  assumes "ensureDirectories env settings a (vault st) = (True, v1)"
    and "processedAssignments st = Null"
  shows "processAssignment env settings a st = Throw (st\<lparr>vault := v1\<rparr>)"
  using assms by (simp add: processAssignment_def reconcile_def)

lemma processAssignment_no_object:
  assumes "processedAssignments st = Null \<or> processedAssignments st = Primitive"
  shows "\<not> is_Normal (processAssignment env settings a st)"
  using assms processAssignment_summary [where env = env and settings = settings and a = a and st = st]
  by (cases "processAssignment env settings a st") auto

lemma example_null_store:
  "loadProcessedAssignments simple_collaborators example_vault_null = Null"
  "map_option fst (createAssignmentNotes simple_collaborators example_settings example_course_requests
      example_requests example_vault_null)
   = Some [Notice ''Fetching Canvas assignments for Spring 2025...'', ErrorNotice]"
  by (simp add: loadProcessedAssignments_def simple_collaborators_def example_vault_null_def
        PROCESSED_ASSIGNMENTS_PATH_def, code_simp)

lemma first_occurrenceI:
  assumes no: "\<not> includes_str (p @ butlast h) h" and ne: "h \<noteq> []"
  shows "\<forall>p' r'. p @ h @ r = p' @ h @ r' \<longrightarrow> length p \<le> length p'"
proof (intro allI impI)
  fix p' r'
  assume eq: "p @ h @ r = p' @ h @ r'"
  show "length p \<le> length p'"
  proof (rule ccontr)
    assume "\<not> length p \<le> length p'"
    then have lt: "length p' < length p" by simp
    let ?n = "length p' + length h"
    from ne have h: "h = butlast h @ [last h]" by simp
    from ne lt have n: "?n \<le> length (p @ butlast h)" by (simp add: Suc_leI)
    have e: "p @ h @ r = (p @ butlast h) @ ([last h] @ r)"
      using h by (metis append_assoc)
    have "take ?n ((p @ butlast h) @ ([last h] @ r)) = take ?n (p @ butlast h)"
      using n by (simp only: take_append diff_is_0_eq' take_0 append_Nil2)
    then have "take ?n (p @ h @ r) = take ?n (p @ butlast h)"
      by (simp only: e)
    moreover have "take ?n (p' @ h @ r') = p' @ h" by simp
    ultimately have "take ?n (p @ butlast h) = p' @ h" using eq by simp
    then have "p @ butlast h = p' @ h @ drop ?n (p @ butlast h)"
      by (metis append_assoc append_take_drop_id)
    then have "includes_str (p @ butlast h) h"
      unfolding includes_str_iff by blast
    with no show False by simp
  qed
qed

lemma detailsSection_plain:
  assumes "CHR ''$'' \<notin> set (description a) \<union> set (html_url a)"
  shows "CHR ''$'' \<notin> set (detailsSection a)"
  using assms Number_toString_no_dollar [of "points_possible a"]
  by (simp add: detailsSection_def NL_def)

lemma fst_True_collapse: "fst x \<Longrightarrow> x = (True, snd x)"
  by (cases x) simp

lemma Some_the_collapse: "x \<noteq> None \<Longrightarrow> x = Some (the x)"
  by simp

text \<open>
  Claim C7, as stated, fails: for an assignment whose content changed and whose due date
  changed as well, the iteration increments two counters, \<open>updated\<close> and \<open>due-date-updated\<close>.
\<close>

theorem counters_two_incremented_counterexample:
  "is_Normal (processAssignment simple_collaborators DEFAULT_SETTINGS example_assignment_due example_state)
   \<and> counters example_state = (0, 0, 0, 0)
   \<and> counters (flow_state (processAssignment simple_collaborators DEFAULT_SETTINGS example_assignment_due
        example_state)) = (0, 1, 1, 0)"
  by code_simp

text \<open>
  Claim C7, amended. Every outcome of an iteration increments its own counter, once, and no
  other counter. A note that is created increments \<open>created\<close> only. For a note that is found,
  the content update, made exactly when the content is classified Changed, increments
  \<open>updated\<close> when it is written; the due-date pass that follows increments \<open>skipped\<close> when the due
  date in the note equals the current one, \<open>due-date-updated\<close> when it differs and is
  rewritten, and nothing when the rewrite fails. So an iteration that reaches an outcome
  increments exactly one counter, except that a Changed assignment whose due-date pass
  reaches an outcome too increments two, \<open>updated\<close> and \<open>due-date-updated\<close> or \<open>skipped\<close>. No
  other combination occurs, and an iteration that ends in an error-continue increments
  nothing. A run that completes reports the four counters of the final state in one summary
  notice; over the run no counter decreases, \<open>updated\<close> grows by at most one for each
  assignment, and so do \<open>created\<close>, \<open>due-date-updated\<close> and \<open>skipped\<close> together.
\<close>

theorem counters_per_assignment:
  "(ensureDirectories env settings a (vault st) = (True, v1) \<and> processedAssignments st = Object m
      \<and> findExistingAssignmentFile env v1 (directoryPath settings a) (cleanAssignmentName (name a)) = None
      \<and> createNote env settings a v1 = (True, v2)
    \<longrightarrow> (\<exists>st1. processAssignment env settings a st = Normal st1
           \<and> counters st1 = (createdCount st + 1, updatedCount st, dueDateUpdatedCount st, skippedCount st)))
   \<and> (ensureDirectories env settings a (vault st) = (True, v1) \<and> processedAssignments st = Object m
      \<and> findExistingAssignmentFile env v1 (directoryPath settings a) (cleanAssignmentName (name a)) = Some f
      \<and> \<not> contentChanged (processedAssignments st) a
      \<and> vault_read env v1 f = Some content
    \<longrightarrow> (\<exists>st1. processAssignment env settings a st = Normal st1
           \<and> counters st1 =
               (if currentDueDate content = formattedDate env a
                then (createdCount st, updatedCount st, dueDateUpdatedCount st, skippedCount st + 1)
                else if fst (updateDueDate env v1 f (formattedDate env a))
                then (createdCount st, updatedCount st, dueDateUpdatedCount st + 1, skippedCount st)
                else (createdCount st, updatedCount st, dueDateUpdatedCount st, skippedCount st))))
   \<and> (ensureDirectories env settings a (vault st) = (True, v1) \<and> processedAssignments st = Object m
      \<and> findExistingAssignmentFile env v1 (directoryPath settings a) (cleanAssignmentName (name a)) = Some f
      \<and> contentChanged (processedAssignments st) a
      \<and> vault_read env v1 f = Some body
      \<and> vault_modify env v1 f (updatedContent a body) = (True, v2)
      \<and> vault_read env v2 f = Some content
    \<longrightarrow> (\<exists>st1. processAssignment env settings a st = Normal st1
           \<and> counters st1 =
               (if currentDueDate content = formattedDate env a
                then (createdCount st, updatedCount st + 1, dueDateUpdatedCount st, skippedCount st + 1)
                else if fst (updateDueDate env v2 f (formattedDate env a))
                then (createdCount st, updatedCount st + 1, dueDateUpdatedCount st + 1, skippedCount st)
                else (createdCount st, updatedCount st + 1, dueDateUpdatedCount st, skippedCount st))))
   \<and> (processAssignment env settings a st = Normal st'
    \<longrightarrow> counters st' = (createdCount st + 1, updatedCount st, dueDateUpdatedCount st, skippedCount st)
      \<or> counters st' = (createdCount st,
           updatedCount st + (if contentChanged (processedAssignments st) a then 1 else 0),
           dueDateUpdatedCount st + 1, skippedCount st)
      \<or> counters st' = (createdCount st,
           updatedCount st + (if contentChanged (processedAssignments st) a then 1 else 0),
           dueDateUpdatedCount st, skippedCount st + 1)
      \<or> counters st' = (createdCount st,
           updatedCount st + (if contentChanged (processedAssignments st) a then 1 else 0),
           dueDateUpdatedCount st, skippedCount st))
   \<and> (processAssignment env settings a st = Continue st' \<longrightarrow> counters st' = counters st)
   \<and> (templater env
        \<and> fetchCanvasAssignments settings reqCourses reqAssignments = Some assignments
        \<and> assignments_loop env settings assignments
             \<lparr>vault = v, processedAssignments = loadProcessedAssignments env v,
              createdCount = 0, updatedCount = 0, dueDateUpdatedCount = 0, skippedCount = 0\<rparr> = Inr final
      \<longrightarrow> map_option fst (createAssignmentNotes env settings reqCourses reqAssignments v)
            = Some [Notice (''Fetching Canvas assignments for '' @ semester settings @ '' ''
                      @ year settings @ ''...''), summaryNotice final])
   \<and> (assignments_loop env settings assignments start = Inr finish
      \<longrightarrow> createdCount start \<le> createdCount finish \<and> updatedCount start \<le> updatedCount finish
          \<and> dueDateUpdatedCount start \<le> dueDateUpdatedCount finish
          \<and> skippedCount start \<le> skippedCount finish
          \<and> updatedCount finish \<le> updatedCount start + length assignments
          \<and> createdCount finish + dueDateUpdatedCount finish + skippedCount finish
              \<le> createdCount start + dueDateUpdatedCount start + skippedCount start + length assignments)"
proof (intro conjI impI)
  assume "ensureDirectories env settings a (vault st) = (True, v1) \<and> processedAssignments st = Object m
      \<and> findExistingAssignmentFile env v1 (directoryPath settings a) (cleanAssignmentName (name a)) = None
      \<and> createNote env settings a v1 = (True, v2)"
  then have h: "ensureDirectories env settings a (vault st) = (True, v1)" "processedAssignments st = Object m"
      "findExistingAssignmentFile env v1 (directoryPath settings a) (cleanAssignmentName (name a)) = None"
      "createNote env settings a v1 = (True, v2)"
    by blast+
  show "\<exists>st1. processAssignment env settings a st = Normal st1
           \<and> counters st1 = (createdCount st + 1, updatedCount st, dueDateUpdatedCount st, skippedCount st)"
    unfolding processAssignment_created [OF h] by (simp add: counters_def)
next
  assume "ensureDirectories env settings a (vault st) = (True, v1) \<and> processedAssignments st = Object m
      \<and> findExistingAssignmentFile env v1 (directoryPath settings a) (cleanAssignmentName (name a)) = Some f
      \<and> \<not> contentChanged (processedAssignments st) a
      \<and> vault_read env v1 f = Some content"
  then have h: "ensureDirectories env settings a (vault st) = (True, v1)" "processedAssignments st = Object m"
      "findExistingAssignmentFile env v1 (directoryPath settings a) (cleanAssignmentName (name a)) = Some f"
      "\<not> contentChanged (processedAssignments st) a" "vault_read env v1 f = Some content"
    by blast+
  show "\<exists>st1. processAssignment env settings a st = Normal st1
           \<and> counters st1 =
               (if currentDueDate content = formattedDate env a
                then (createdCount st, updatedCount st, dueDateUpdatedCount st, skippedCount st + 1)
                else if fst (updateDueDate env v1 f (formattedDate env a))
                then (createdCount st, updatedCount st, dueDateUpdatedCount st + 1, skippedCount st)
                else (createdCount st, updatedCount st, dueDateUpdatedCount st, skippedCount st))"
    unfolding processAssignment_unchanged [OF h] by (simp add: counters_def)
next
  assume "ensureDirectories env settings a (vault st) = (True, v1) \<and> processedAssignments st = Object m
      \<and> findExistingAssignmentFile env v1 (directoryPath settings a) (cleanAssignmentName (name a)) = Some f
      \<and> contentChanged (processedAssignments st) a
      \<and> vault_read env v1 f = Some body
      \<and> vault_modify env v1 f (updatedContent a body) = (True, v2)
      \<and> vault_read env v2 f = Some content"
  then have h: "ensureDirectories env settings a (vault st) = (True, v1)" "processedAssignments st = Object m"
      "findExistingAssignmentFile env v1 (directoryPath settings a) (cleanAssignmentName (name a)) = Some f"
      "contentChanged (processedAssignments st) a" "vault_read env v1 f = Some body"
      "vault_modify env v1 f (updatedContent a body) = (True, v2)" "vault_read env v2 f = Some content"
    by blast+
  show "\<exists>st1. processAssignment env settings a st = Normal st1
           \<and> counters st1 =
               (if currentDueDate content = formattedDate env a
                then (createdCount st, updatedCount st + 1, dueDateUpdatedCount st, skippedCount st + 1)
                else if fst (updateDueDate env v2 f (formattedDate env a))
                then (createdCount st, updatedCount st + 1, dueDateUpdatedCount st + 1, skippedCount st)
                else (createdCount st, updatedCount st + 1, dueDateUpdatedCount st, skippedCount st))"
    unfolding processAssignment_changed [OF h] by (simp add: counters_def)
next
  assume "processAssignment env settings a st = Normal st'"
  with processAssignment_summary [where env = env and settings = settings and a = a and st = st]
  show "counters st' = (createdCount st + 1, updatedCount st, dueDateUpdatedCount st, skippedCount st)
      \<or> counters st' = (createdCount st,
           updatedCount st + (if contentChanged (processedAssignments st) a then 1 else 0),
           dueDateUpdatedCount st + 1, skippedCount st)
      \<or> counters st' = (createdCount st,
           updatedCount st + (if contentChanged (processedAssignments st) a then 1 else 0),
           dueDateUpdatedCount st, skippedCount st + 1)
      \<or> counters st' = (createdCount st,
           updatedCount st + (if contentChanged (processedAssignments st) a then 1 else 0),
           dueDateUpdatedCount st, skippedCount st)"
    by (simp add: changedBy_def)
next
  assume "processAssignment env settings a st = Continue st'"
  with processAssignment_summary [where env = env and settings = settings and a = a and st = st]
  show "counters st' = counters st" by simp
next
  assume "templater env
        \<and> fetchCanvasAssignments settings reqCourses reqAssignments = Some assignments
        \<and> assignments_loop env settings assignments
             \<lparr>vault = v, processedAssignments = loadProcessedAssignments env v,
              createdCount = 0, updatedCount = 0, dueDateUpdatedCount = 0, skippedCount = 0\<rparr> = Inr final"
  then show "map_option fst (createAssignmentNotes env settings reqCourses reqAssignments v)
            = Some [Notice (''Fetching Canvas assignments for '' @ semester settings @ '' ''
                      @ year settings @ ''...''), summaryNotice final]"
    by (simp add: createAssignmentNotes_def)
next
  assume "assignments_loop env settings assignments start = Inr finish"
  note b = assignments_loop_counters [OF this]
  from b show "createdCount start \<le> createdCount finish" by blast
  from b show "updatedCount start \<le> updatedCount finish" by blast
  from b show "dueDateUpdatedCount start \<le> dueDateUpdatedCount finish" by blast
  from b show "skippedCount start \<le> skippedCount finish" by blast
  from b show "updatedCount finish \<le> updatedCount start + length assignments" by blast
  from b show "createdCount finish + dueDateUpdatedCount finish + skippedCount finish
      \<le> createdCount start + dueDateUpdatedCount start + skippedCount start + length assignments"
    by blast
qed

lemma example_due_Normal:
  "processAssignment simple_collaborators DEFAULT_SETTINGS example_assignment_due example_state
     = Normal (flow_state (processAssignment simple_collaborators DEFAULT_SETTINGS example_assignment_due
         example_state))"
proof -
  have "is_Normal (processAssignment simple_collaborators DEFAULT_SETTINGS example_assignment_due example_state)"
    by code_simp
  then show ?thesis by simp
qed


lemma is_Continue_collapse: "is_Continue f \<Longrightarrow> f = Continue (flow_state f)"
  by (cases f) simp_all

lemma example_other_Continue:
  "processAssignment simple_collaborators DEFAULT_SETTINGS example_assignment_other example_state
     = Continue (flow_state (processAssignment simple_collaborators DEFAULT_SETTINGS example_assignment_other
         example_state))"
proof -
  have "is_Continue (processAssignment simple_collaborators DEFAULT_SETTINGS example_assignment_other example_state)"
    by code_simp
  then show ?thesis by (rule is_Continue_collapse)
qed

lemma example_fetch:
  "fetchCanvasAssignments example_settings example_course_requests example_requests
     = Some [annotate example_course2 example_api_assignment]"
  by code_simp

lemma example_run:
  "assignments_loop simple_collaborators example_settings [annotate example_course2 example_api_assignment]
     example_start
   = Inr (projr (assignments_loop simple_collaborators example_settings
       [annotate example_course2 example_api_assignment] example_start))"
proof -
  have "\<not> isl (assignments_loop simple_collaborators example_settings
       [annotate example_course2 example_api_assignment] example_start)"
    by code_simp
  then show ?thesis by simp
qed

lemma example_summary:
  "summaryNotice (projr (assignments_loop simple_collaborators example_settings
       [annotate example_course2 example_api_assignment] example_start))
   = Notice ''Created 1 new notes, updated 0, updated 0 due dates, skipped 0 unchanged notes''"
  by code_simp

lemma example_stores:
  "processedAssignments example_start = Object Map.empty"
  "processedAssignments example_state_fresh = Object Map.empty"
  "processedAssignments example_state = Object [''eng101-essay'' \<mapsto> Str ''old'']"
  by (simp_all add: example_start_def example_state_fresh_def example_state_def loadProcessedAssignments_def
        simple_collaborators_def example_vault_template_def PROCESSED_ASSIGNMENTS_PATH_def)

lemma example_zero:
  "counters example_start = (0, 0, 0, 0)" "counters example_state_fresh = (0, 0, 0, 0)"
  "counters example_state = (0, 0, 0, 0)"
  by (simp_all add: counters_def example_start_def example_state_fresh_def example_state_def)

lemma example_created_path:
  "fst (ensureDirectories simple_collaborators example_settings example_new_assignment (vault example_start))"
  "findExistingAssignmentFile simple_collaborators
     (snd (ensureDirectories simple_collaborators example_settings example_new_assignment (vault example_start)))
     (directoryPath example_settings example_new_assignment)
     (cleanAssignmentName (name example_new_assignment)) = None"
  "fst (createNote simple_collaborators example_settings example_new_assignment
     (snd (ensureDirectories simple_collaborators example_settings example_new_assignment (vault example_start))))"
  by code_simp+

lemma example_found_path:
  "ensureDirectories simple_collaborators DEFAULT_SETTINGS example_assignment (vault example_state_fresh)
     = (True, example_vault)"
  "ensureDirectories simple_collaborators DEFAULT_SETTINGS example_assignment_due (vault example_state_fresh)
     = (True, example_vault)"
  "ensureDirectories simple_collaborators DEFAULT_SETTINGS example_assignment (vault example_state)
     = (True, example_vault)"
  "findExistingAssignmentFile simple_collaborators example_vault
     (directoryPath DEFAULT_SETTINGS example_assignment) (cleanAssignmentName (name example_assignment))
     = Some example_file"
  "findExistingAssignmentFile simple_collaborators example_vault
     (directoryPath DEFAULT_SETTINGS example_assignment_due) (cleanAssignmentName (name example_assignment_due))
     = Some example_file"
  "vault_read simple_collaborators example_vault example_file \<noteq> None"
  by code_simp+

lemma example_unchanged_path:
  "\<not> contentChanged (processedAssignments example_state_fresh) example_assignment"
  "\<not> contentChanged (processedAssignments example_state_fresh) example_assignment_due"
  "currentDueDate (the (vault_read simple_collaborators example_vault example_file))
     = formattedDate simple_collaborators example_assignment"
  "currentDueDate (the (vault_read simple_collaborators example_vault example_file))
     \<noteq> formattedDate simple_collaborators example_assignment_due"
  "fst (updateDueDate simple_collaborators example_vault example_file
     (formattedDate simple_collaborators example_assignment_due))"
  by code_simp+

lemma example_changed_path:
  "contentChanged (processedAssignments example_state) example_assignment"
  "fst (vault_modify simple_collaborators example_vault example_file
     (updatedContent example_assignment (the (vault_read simple_collaborators example_vault example_file))))"
  "vault_read simple_collaborators
     (snd (vault_modify simple_collaborators example_vault example_file
        (updatedContent example_assignment (the (vault_read simple_collaborators example_vault example_file)))))
     example_file \<noteq> None"
  "currentDueDate (the (vault_read simple_collaborators
     (snd (vault_modify simple_collaborators example_vault example_file
        (updatedContent example_assignment (the (vault_read simple_collaborators example_vault example_file)))))
     example_file))
   = formattedDate simple_collaborators example_assignment"
  by code_simp+

theorem counters_per_assignment_witness:
  "counters (flow_state (processAssignment simple_collaborators example_settings example_new_assignment
      example_start)) = (1, 0, 0, 0)
   \<and> counters (flow_state (processAssignment simple_collaborators DEFAULT_SETTINGS example_assignment
      example_state_fresh)) = (0, 0, 0, 1)
   \<and> counters (flow_state (processAssignment simple_collaborators DEFAULT_SETTINGS example_assignment_due
      example_state_fresh)) = (0, 0, 1, 0)
   \<and> counters (flow_state (processAssignment simple_collaborators DEFAULT_SETTINGS example_assignment
      example_state)) = (0, 1, 0, 1)
   \<and> counters (flow_state (processAssignment simple_collaborators DEFAULT_SETTINGS example_assignment_other
      example_state)) = counters example_state
   \<and> map_option fst (createAssignmentNotes simple_collaborators example_settings example_course_requests
          example_requests example_vault_template)
      = Some [Notice ''Fetching Canvas assignments for Spring 2025...'',
              Notice ''Created 1 new notes, updated 0, updated 0 due dates, skipped 0 unchanged notes'']
   \<and> updatedCount (projr (assignments_loop simple_collaborators example_settings
          [annotate example_course2 example_api_assignment] example_start)) \<le> 1
   \<and> createdCount (projr (assignments_loop simple_collaborators example_settings
          [annotate example_course2 example_api_assignment] example_start))
       + dueDateUpdatedCount (projr (assignments_loop simple_collaborators example_settings
          [annotate example_course2 example_api_assignment] example_start))
       + skippedCount (projr (assignments_loop simple_collaborators example_settings
          [annotate example_course2 example_api_assignment] example_start)) \<le> 1"
proof (intro conjI)
  let ?env = simple_collaborators
  let ?body = "the (vault_read ?env example_vault example_file)"
  have read: "vault_read ?env example_vault example_file = Some ?body"
    using example_found_path(6) by (rule Some_the_collapse)
  have zero: "createdCount example_start = 0" "updatedCount example_start = 0"
    "dueDateUpdatedCount example_start = 0" "skippedCount example_start = 0"
    "createdCount example_state_fresh = 0" "updatedCount example_state_fresh = 0"
    "dueDateUpdatedCount example_state_fresh = 0" "skippedCount example_state_fresh = 0"
    "createdCount example_state = 0" "updatedCount example_state = 0"
    "dueDateUpdatedCount example_state = 0" "skippedCount example_state = 0"
    by (simp_all add: example_start_def example_state_fresh_def example_state_def)
  show "counters (flow_state (processAssignment ?env example_settings example_new_assignment example_start))
      = (1, 0, 0, 0)"
  proof -
    let ?v1 = "snd (ensureDirectories ?env example_settings example_new_assignment (vault example_start))"
    let ?v2 = "snd (createNote ?env example_settings example_new_assignment ?v1)"
    have "ensureDirectories ?env example_settings example_new_assignment (vault example_start) = (True, ?v1)"
      using example_created_path(1) by (rule fst_True_collapse)
    moreover have "createNote ?env example_settings example_new_assignment ?v1 = (True, ?v2)"
      using example_created_path(3) by (rule fst_True_collapse)
    ultimately obtain st1 where
      "processAssignment ?env example_settings example_new_assignment example_start = Normal st1"
      "counters st1 = (createdCount example_start + 1, updatedCount example_start,
         dueDateUpdatedCount example_start, skippedCount example_start)"
      using counters_per_assignment [where env = ?env and settings = example_settings
          and a = example_new_assignment and st = example_start and ?v1.0 = ?v1 and ?v2.0 = ?v2
          and m = Map.empty, THEN conjunct1]
        example_stores(1) example_created_path(2)
      by blast
    then show ?thesis by (simp add: zero)
  qed
  show "counters (flow_state (processAssignment ?env DEFAULT_SETTINGS example_assignment example_state_fresh))
      = (0, 0, 0, 1)"
  proof -
    from counters_per_assignment [where env = ?env and settings = DEFAULT_SETTINGS
          and a = example_assignment and st = example_state_fresh and ?v1.0 = example_vault
          and m = Map.empty and f = example_file and content = ?body,
          THEN conjunct2, THEN conjunct1]
      example_found_path(1,4) example_stores(2) example_unchanged_path(1) read
    obtain st1 where
      "processAssignment ?env DEFAULT_SETTINGS example_assignment example_state_fresh = Normal st1"
      "counters st1 =
         (if currentDueDate ?body = formattedDate ?env example_assignment
          then (createdCount example_state_fresh, updatedCount example_state_fresh,
                dueDateUpdatedCount example_state_fresh, skippedCount example_state_fresh + 1)
          else if fst (updateDueDate ?env example_vault example_file (formattedDate ?env example_assignment))
          then (createdCount example_state_fresh, updatedCount example_state_fresh,
                dueDateUpdatedCount example_state_fresh + 1, skippedCount example_state_fresh)
          else (createdCount example_state_fresh, updatedCount example_state_fresh,
                dueDateUpdatedCount example_state_fresh, skippedCount example_state_fresh))"
      by blast
    then show ?thesis using example_unchanged_path(3) by (simp add: zero)
  qed
  show "counters (flow_state (processAssignment ?env DEFAULT_SETTINGS example_assignment_due example_state_fresh))
      = (0, 0, 1, 0)"
  proof -
    from counters_per_assignment [where env = ?env and settings = DEFAULT_SETTINGS
          and a = example_assignment_due and st = example_state_fresh and ?v1.0 = example_vault
          and m = Map.empty and f = example_file and content = ?body,
          THEN conjunct2, THEN conjunct1]
      example_found_path(2,5) example_stores(2) example_unchanged_path(2) read
    obtain st1 where
      "processAssignment ?env DEFAULT_SETTINGS example_assignment_due example_state_fresh = Normal st1"
      "counters st1 =
         (if currentDueDate ?body = formattedDate ?env example_assignment_due
          then (createdCount example_state_fresh, updatedCount example_state_fresh,
                dueDateUpdatedCount example_state_fresh, skippedCount example_state_fresh + 1)
          else if fst (updateDueDate ?env example_vault example_file (formattedDate ?env example_assignment_due))
          then (createdCount example_state_fresh, updatedCount example_state_fresh,
                dueDateUpdatedCount example_state_fresh + 1, skippedCount example_state_fresh)
          else (createdCount example_state_fresh, updatedCount example_state_fresh,
                dueDateUpdatedCount example_state_fresh, skippedCount example_state_fresh))"
      by blast
    then show ?thesis using example_unchanged_path(4,5) by (simp add: zero)
  qed
  show "counters (flow_state (processAssignment ?env DEFAULT_SETTINGS example_assignment example_state))
      = (0, 1, 0, 1)"
  proof -
    let ?v2 = "snd (vault_modify ?env example_vault example_file (updatedContent example_assignment ?body))"
    let ?content = "the (vault_read ?env ?v2 example_file)"
    have written: "vault_modify ?env example_vault example_file (updatedContent example_assignment ?body)
        = (True, ?v2)"
      using example_changed_path(2) by (rule fst_True_collapse)
    have read2: "vault_read ?env ?v2 example_file = Some ?content"
      using example_changed_path(3) by (rule Some_the_collapse)
    from counters_per_assignment [where env = ?env and settings = DEFAULT_SETTINGS
          and a = example_assignment and st = example_state and ?v1.0 = example_vault
          and m = "[''eng101-essay'' \<mapsto> Str ''old'']" and f = example_file and body = ?body
          and ?v2.0 = ?v2 and content = ?content,
          THEN conjunct2, THEN conjunct2, THEN conjunct1]
      example_found_path(3,4) example_stores(3) example_changed_path(1) read written read2
    obtain st1 where
      "processAssignment ?env DEFAULT_SETTINGS example_assignment example_state = Normal st1"
      "counters st1 =
         (if currentDueDate ?content = formattedDate ?env example_assignment
          then (createdCount example_state, updatedCount example_state + 1,
                dueDateUpdatedCount example_state, skippedCount example_state + 1)
          else if fst (updateDueDate ?env ?v2 example_file (formattedDate ?env example_assignment))
          then (createdCount example_state, updatedCount example_state + 1,
                dueDateUpdatedCount example_state + 1, skippedCount example_state)
          else (createdCount example_state, updatedCount example_state + 1,
                dueDateUpdatedCount example_state, skippedCount example_state))"
      by blast
    then show ?thesis using example_changed_path(4) by (simp add: zero)
  qed
  from counters_per_assignment [where env = ?env and settings = DEFAULT_SETTINGS
      and a = example_assignment_other and st = example_state
      and st' = "flow_state (processAssignment ?env DEFAULT_SETTINGS example_assignment_other example_state)",
      THEN conjunct2, THEN conjunct2, THEN conjunct2, THEN conjunct2, THEN conjunct1]
    example_other_Continue
  show "counters (flow_state (processAssignment ?env DEFAULT_SETTINGS example_assignment_other
          example_state)) = counters example_state"
    by blast
  have t: "templater ?env"
    by (simp add: simple_collaborators_def)
  from counters_per_assignment [where env = ?env and settings = example_settings
      and reqCourses = example_course_requests and reqAssignments = example_requests
      and assignments = "[annotate example_course2 example_api_assignment]"
      and v = example_vault_template
      and final = "projr (assignments_loop ?env example_settings
          [annotate example_course2 example_api_assignment] example_start)",
      THEN conjunct2, THEN conjunct2, THEN conjunct2, THEN conjunct2, THEN conjunct2, THEN conjunct1]
    t example_fetch example_run [unfolded example_start_def]
  have "map_option fst (createAssignmentNotes ?env example_settings example_course_requests
          example_requests example_vault_template)
      = Some [Notice (''Fetching Canvas assignments for '' @ semester example_settings @ '' ''
                      @ year example_settings @ ''...''),
              summaryNotice (projr (assignments_loop ?env example_settings
                [annotate example_course2 example_api_assignment] example_start))]"
    by (simp only: example_start_def simp_thms)
  then show "map_option fst (createAssignmentNotes ?env example_settings example_course_requests
          example_requests example_vault_template)
      = Some [Notice ''Fetching Canvas assignments for Spring 2025...'',
              Notice ''Created 1 new notes, updated 0, updated 0 due dates, skipped 0 unchanged notes'']"
    by (simp only: example_summary) (simp add: example_settings_def DEFAULT_SETTINGS_def)
  let ?final = "projr (assignments_loop ?env example_settings
          [annotate example_course2 example_api_assignment] example_start)"
  note run = counters_per_assignment [where env = ?env and settings = example_settings
      and assignments = "[annotate example_course2 example_api_assignment]"
      and start = example_start and finish = ?final,
      THEN conjunct2, THEN conjunct2, THEN conjunct2, THEN conjunct2, THEN conjunct2, THEN conjunct2]
  from run example_run show "updatedCount ?final \<le> 1"
    by (simp add: zero)
  from run example_run
  show "createdCount ?final + dueDateUpdatedCount ?final + skippedCount ?final \<le> 1"
    by (simp add: zero)
qed






text \<open>
  Claim C9. When the body of the note is \<open>p @ ''## Assignment Details'' @ r\<close> and the heading
  does not start earlier than after \<open>p\<close>, the content update writes \<open>p\<close> followed by the new
  section: the characters before the heading are kept, everything from the heading on is
  replaced. The new section is \<open>detailsSection a\<close> with the replacement patterns of
  \<open>String.replace\<close> expanded; it is \<open>detailsSection a\<close> itself when the description and the link
  hold no \<open>$\<close>. The update branch passes exactly this text to \<open>vault.modify\<close>.
\<close>

theorem content_update_keeps_prefix:
  assumes "\<forall>p' r'. p @ ''## Assignment Details'' @ r = p' @ ''## Assignment Details'' @ r'
             \<longrightarrow> length p \<le> length p'"
  shows "updatedContent a (p @ ''## Assignment Details'' @ r)
           = p @ getSubstitution (''## Assignment Details'' @ r) p [] (detailsSection a)
       \<and> take (length p) (updatedContent a (p @ ''## Assignment Details'' @ r)) = p
       \<and> (CHR ''$'' \<notin> set (description a) \<union> set (html_url a)
            \<longrightarrow> updatedContent a (p @ ''## Assignment Details'' @ r) = p @ detailsSection a)
       \<and> (vault_read env (vault st) f = Some (p @ ''## Assignment Details'' @ r)
          \<and> vault_modify env (vault st) f
               (p @ getSubstitution (''## Assignment Details'' @ r) p [] (detailsSection a)) = (True, v1)
            \<longrightarrow> contentUpdate env a f st = Normal (st\<lparr>vault := v1, updatedCount := updatedCount st + 1\<rparr>))"
proof -
  have u: "updatedContent a (p @ ''## Assignment Details'' @ r)
           = p @ getSubstitution (''## Assignment Details'' @ r) p [] (detailsSection a)"
    using updatedContent_first_heading [OF assms] .
  have t: "take (length p) (updatedContent a (p @ ''## Assignment Details'' @ r)) = p"
    unfolding u by simp
  have d: "CHR ''$'' \<notin> set (description a) \<union> set (html_url a)
            \<longrightarrow> updatedContent a (p @ ''## Assignment Details'' @ r) = p @ detailsSection a"
    unfolding u using getSubstitution_plain [OF detailsSection_plain] by simp
  have b: "vault_read env (vault st) f = Some (p @ ''## Assignment Details'' @ r)
          \<and> vault_modify env (vault st) f
               (p @ getSubstitution (''## Assignment Details'' @ r) p [] (detailsSection a)) = (True, v1)
            \<longrightarrow> contentUpdate env a f st = Normal (st\<lparr>vault := v1, updatedCount := updatedCount st + 1\<rparr>)"
    unfolding u [symmetric] by (simp add: contentUpdate_def)
  from u t d b show ?thesis by blast
qed

lemma example_first_heading:
  "\<forall>p' r'. (''duedate: '' @ NL @ ''my notes'' @ NL) @ ''## Assignment Details'' @ (NL @ ''Points: 5'' @ NL)
       = p' @ ''## Assignment Details'' @ r'
     \<longrightarrow> length (''duedate: '' @ NL @ ''my notes'' @ NL) \<le> length p'"
proof (rule first_occurrenceI)
  show "\<not> includes_str ((''duedate: '' @ NL @ ''my notes'' @ NL) @ butlast ''## Assignment Details'')
          ''## Assignment Details''"
    by code_simp
  show "''## Assignment Details'' \<noteq> []" by simp
qed

lemma example_modify:
  "vault_read simple_collaborators (vault example_state) example_file
     = Some ((''duedate: '' @ NL @ ''my notes'' @ NL) @ ''## Assignment Details'' @ (NL @ ''Points: 5'' @ NL))"
  "fst (vault_modify simple_collaborators (vault example_state) example_file
       ((''duedate: '' @ NL @ ''my notes'' @ NL)
          @ getSubstitution (''## Assignment Details'' @ (NL @ ''Points: 5'' @ NL))
              (''duedate: '' @ NL @ ''my notes'' @ NL) [] (detailsSection example_assignment)))"
  by code_simp+

theorem content_update_keeps_prefix_witness:
  "updatedContent example_assignment
     ((''duedate: '' @ NL @ ''my notes'' @ NL) @ ''## Assignment Details'' @ (NL @ ''Points: 5'' @ NL))
   = (''duedate: '' @ NL @ ''my notes'' @ NL) @ detailsSection example_assignment
   \<and> contentUpdate simple_collaborators example_assignment example_file example_state
     = Normal (example_state
         \<lparr>vault := snd (vault_modify simple_collaborators (vault example_state) example_file
             ((''duedate: '' @ NL @ ''my notes'' @ NL)
                @ getSubstitution (''## Assignment Details'' @ (NL @ ''Points: 5'' @ NL))
                    (''duedate: '' @ NL @ ''my notes'' @ NL) [] (detailsSection example_assignment))),
           updatedCount := updatedCount example_state + 1\<rparr>)"
proof -
  let ?v1 = "snd (vault_modify simple_collaborators (vault example_state) example_file
             ((''duedate: '' @ NL @ ''my notes'' @ NL)
                @ getSubstitution (''## Assignment Details'' @ (NL @ ''Points: 5'' @ NL))
                    (''duedate: '' @ NL @ ''my notes'' @ NL) [] (detailsSection example_assignment)))"
  have plain: "CHR ''$'' \<notin> set (description example_assignment) \<union> set (html_url example_assignment)"
    by (simp add: example_assignment_def)
  have written: "vault_modify simple_collaborators (vault example_state) example_file
       ((''duedate: '' @ NL @ ''my notes'' @ NL)
          @ getSubstitution (''## Assignment Details'' @ (NL @ ''Points: 5'' @ NL))
              (''duedate: '' @ NL @ ''my notes'' @ NL) [] (detailsSection example_assignment))
     = (True, ?v1)"
    using example_modify(2) by (rule fst_True_collapse)
  from content_update_keeps_prefix [OF example_first_heading, where a = example_assignment
      and env = simple_collaborators and st = example_state and f = example_file and ?v1.0 = ?v1]
    plain example_modify(1) written
  show ?thesis by blast
qed

text \<open>
  Claim C10. When a note is found, a prior fingerprint exists and differs, and the body of the
  note does not contain the heading, the replacement matches nothing: the update branch writes
  the body back as it is, increments the \<open>updated\<close> counter and goes on to the due-date pass.
\<close>

theorem content_update_without_heading:
  assumes "\<not> includes_str body ''## Assignment Details''"
    and "findExistingAssignmentFile env (vault st) (directoryPath settings a)
           (cleanAssignmentName (name a)) = Some f"
    and "previousHash (processedAssignments st) (assignmentKey a) = Some (Str prior)"
    and "prior \<noteq> []" and "prior \<noteq> getAssignmentHash a"
    and "vault_read env (vault st) f = Some body"
    and "vault_modify env (vault st) f body = (True, v1)"
  shows "updatedContent a body = body
       \<and> contentUpdate env a f st = Normal (st\<lparr>vault := v1, updatedCount := updatedCount st + 1\<rparr>)
       \<and> reconcile env settings a st
           = dueDatePass env a f (st\<lparr>vault := v1, updatedCount := updatedCount st + 1\<rparr>)"
proof -
  have "\<not> (\<exists>u v. body = u @ ''## Assignment Details'' @ v)"
    using assms(1) unfolding includes_str_iff .
  then have same: "updatedContent a body = body"
    by (rule updatedContent_no_heading)
  have changed: "contentChanged (processedAssignments st) a"
    using assms(3-5) by (simp add: contentChanged_def)
  have branch: "contentUpdate env a f st = Normal (st\<lparr>vault := v1, updatedCount := updatedCount st + 1\<rparr>)"
    using assms(6,7) same by (simp add: contentUpdate_def)
  have object: "\<not> isNull (processedAssignments st)"
    using assms(3) by (cases "processedAssignments st") (simp_all add: previousHash_def)
  have "reconcile env settings a st
           = dueDatePass env a f (st\<lparr>vault := v1, updatedCount := updatedCount st + 1\<rparr>)"
    using assms(2) changed branch object by (simp add: reconcile_def)
  with same branch show ?thesis by blast
qed

theorem content_update_without_heading_witness:
  "updatedContent example_assignment (''duedate: '' @ NL @ ''my notes'' @ NL) = ''duedate: '' @ NL @ ''my notes'' @ NL
   \<and> contentUpdate simple_collaborators example_assignment example_file example_state_plain
       = Normal (example_state_plain\<lparr>vault := example_vault_plain,
                   updatedCount := updatedCount example_state_plain + 1\<rparr>)"
proof -
  have 1: "\<not> includes_str (''duedate: '' @ NL @ ''my notes'' @ NL) ''## Assignment Details''"
    by code_simp
  have 2: "findExistingAssignmentFile simple_collaborators (vault example_state_plain)
             (directoryPath DEFAULT_SETTINGS example_assignment)
             (cleanAssignmentName (name example_assignment)) = Some example_file"
    by code_simp
  have 3: "previousHash (processedAssignments example_state_plain) (assignmentKey example_assignment)
             = Some (Str ''old'')"
    by code_simp
  have 4: "''old'' \<noteq> []" by simp
  have 5: "''old'' \<noteq> getAssignmentHash example_assignment"
    by code_simp
  have 6: "vault_read simple_collaborators (vault example_state_plain) example_file
             = Some (''duedate: '' @ NL @ ''my notes'' @ NL)"
    by code_simp
  have 7: "vault_modify simple_collaborators (vault example_state_plain) example_file
             (''duedate: '' @ NL @ ''my notes'' @ NL) = (True, example_vault_plain)"
    by code_simp
  from content_update_without_heading [OF 1 2 3 4 5 6 7] show ?thesis by blast
qed

end
